theory Spec2Isabelle
  imports Complex_Main "HOL-Library.AList" "HOL-Library.Log_Nat"
begin

section \<open>Python values\<close>

text \<open>
  The entity records are decoded JSON: every field value is one of the shapes below.
  Dictionaries keep their insertion order, so a dictionary is an association list with
  distinct keys. Floating-point numbers as field values are not part of the model. The
  floats the program itself produces, the edge weight 1.0 and the scores of the
  statistics, are modelled by the rational numbers they denote.
  Strings are lists of 8-bit characters and case folding is the ASCII one.
\<close>

datatype pyval =
    PNone
  | PBool bool
  | PInt int
  | PStr string
  | PList "pyval list"
  | PDict "(string \<times> pyval) list"

type_synonym dict = "(string \<times> pyval) list"

text \<open>The exceptions that the modelled code can raise.\<close>

datatype error = ValueError | TypeError | AttributeError | KeyError | IndexError

definition ebind :: "error + 'a \<Rightarrow> ('a \<Rightarrow> error + 'b) \<Rightarrow> error + 'b" where
  "ebind m f = (case m of Inl e \<Rightarrow> Inl e | Inr x \<Rightarrow> f x)"

text \<open>Truth value of an object, as tested by \<^verbatim>\<open>if x\<close> and \<^verbatim>\<open>not x\<close>.\<close>

fun truthy :: "pyval \<Rightarrow> bool" where
  "truthy PNone = False"
| "truthy (PBool b) = b"
| "truthy (PInt i) = (i \<noteq> 0)"
| "truthy (PStr s) = (s \<noteq> [])"
| "truthy (PList xs) = (xs \<noteq> [])"
| "truthy (PDict d) = (d \<noteq> [])"

text \<open>\<^verbatim>\<open>==\<close>: booleans compare as the integers 0 and 1, dictionaries regardless of order.\<close>

fun num_of :: "pyval \<Rightarrow> int option" where
  "num_of (PInt i) = Some i"
| "num_of (PBool b) = Some (if b then 1 else 0)"
| "num_of _ = None"

fun py_eq :: "pyval \<Rightarrow> pyval \<Rightarrow> bool" where
  "py_eq PNone PNone = True"
| "py_eq (PBool a) y = (num_of y = Some (if a then 1 else 0))"
| "py_eq (PInt i) y = (num_of y = Some i)"
| "py_eq (PStr s) (PStr t) = (s = t)"
| "py_eq (PList xs) (PList ys) = list_all2 py_eq xs ys"
| "py_eq (PDict a) (PDict b) =
     (set (map fst a) = set (map fst b) \<and>
      (\<forall>p \<in> set a. case map_of b (fst p) of None \<Rightarrow> False | Some w \<Rightarrow> py_eq (snd p) w))"
| "py_eq _ _ = False"

text \<open>\<^verbatim>\<open>d.get(k, default)\<close> on a dictionary; \<^verbatim>\<open>d.get(k)\<close> has the default \<^verbatim>\<open>None\<close>.\<close>

definition get_or :: "dict \<Rightarrow> string \<Rightarrow> pyval \<Rightarrow> pyval" where
  "get_or d k dflt = (case map_of d k of None \<Rightarrow> dflt | Some v \<Rightarrow> v)"

definition dict_set :: "dict \<Rightarrow> string \<Rightarrow> pyval \<Rightarrow> dict" where
  "dict_set d k v = AList.update k v d"

definition dict_update :: "dict \<Rightarrow> dict \<Rightarrow> dict" where
  "dict_update d new = foldl (\<lambda>acc kv. dict_set acc (fst kv) (snd kv)) d new"

subsection \<open>Strings\<close>

definition lower_char :: "char \<Rightarrow> char" where
  "lower_char c =
     (case map_of (zip ''ABCDEFGHIJKLMNOPQRSTUVWXYZ'' ''abcdefghijklmnopqrstuvwxyz'') c of
        None \<Rightarrow> c | Some l \<Rightarrow> l)"

definition str_lower :: "string \<Rightarrow> string" where
  "str_lower s = map lower_char s"

fun starts_with :: "string \<Rightarrow> string \<Rightarrow> bool" where
  "starts_with s [] = True"
| "starts_with [] (p # ps) = False"
| "starts_with (c # cs) (p # ps) = (c = p \<and> starts_with cs ps)"

definition ends_with :: "string \<Rightarrow> string \<Rightarrow> bool" where
  "ends_with s p = starts_with (rev s) (rev p)"

text \<open>\<^verbatim>\<open>needle in hay\<close> for two strings; \<^verbatim>\<open>hay.find(needle) != -1\<close> is the same test.\<close>

fun str_contains :: "string \<Rightarrow> string \<Rightarrow> bool" where
  "str_contains [] needle = (needle = [])"
| "str_contains (c # cs) needle = (starts_with (c # cs) needle \<or> str_contains cs needle)"

fun split_on :: "char \<Rightarrow> string \<Rightarrow> string list" where
  "split_on sep [] = [[]]"
| "split_on sep (c # cs) =
     (if c = sep then [] # split_on sep cs
      else (case split_on sep cs of [] \<Rightarrow> [[c]] | w # ws \<Rightarrow> (c # w) # ws))"

fun show_nat :: "nat \<Rightarrow> string" where
  "show_nat n =
     (if n < 10 then [''0123456789'' ! n]
      else show_nat (n div 10) @ [''0123456789'' ! (n mod 10)])"

declare show_nat.simps [simp del]

definition show_int :: "int \<Rightarrow> string" where
  "show_int i = (if i < 0 then CHR ''-'' # show_nat (nat (- i)) else show_nat (nat i))"

subsection \<open>Methods and built-ins on values\<close>

text \<open>\<^verbatim>\<open>x.lower()\<close>: only strings have the method.\<close>

fun py_lower :: "pyval \<Rightarrow> error + string" where
  "py_lower (PStr s) = Inr (str_lower s)"
| "py_lower _ = Inl AttributeError"

text \<open>\<^verbatim>\<open>x.get(k, default)\<close>: only dictionaries have the method.\<close>

fun py_get :: "pyval \<Rightarrow> string \<Rightarrow> pyval \<Rightarrow> error + pyval" where
  "py_get (PDict d) k dflt = Inr (get_or d k dflt)"
| "py_get _ k dflt = Inl AttributeError"

text \<open>\<^verbatim>\<open>k in x\<close> for a string \<open>k\<close>: key test, substring test or list membership.\<close>

fun py_has :: "pyval \<Rightarrow> string \<Rightarrow> error + bool" where
  "py_has (PDict d) k = Inr (k \<in> set (map fst d))"
| "py_has (PStr s) k = Inr (str_contains s k)"
| "py_has (PList xs) k = Inr (PStr k \<in> set xs)"
| "py_has _ k = Inl TypeError"

text \<open>\<^verbatim>\<open>x[k]\<close> for a string \<open>k\<close>; reached only after \<^verbatim>\<open>k in x\<close> held.\<close>

fun py_getitem :: "pyval \<Rightarrow> string \<Rightarrow> error + pyval" where
  "py_getitem (PDict d) k = (case map_of d k of None \<Rightarrow> Inl KeyError | Some v \<Rightarrow> Inr v)"
| "py_getitem _ k = Inl TypeError"

text \<open>The items a \<^verbatim>\<open>for\<close> loop over the value visits.\<close>

fun py_iter :: "pyval \<Rightarrow> error + pyval list" where
  "py_iter (PList xs) = Inr xs"
| "py_iter (PStr s) = Inr (map (\<lambda>c. PStr [c]) s)"
| "py_iter (PDict d) = Inr (map (\<lambda>kv. PStr (fst kv)) d)"
| "py_iter _ = Inl TypeError"

text \<open>\<^verbatim>\<open>x[0]\<close>.\<close>

fun py_first :: "pyval \<Rightarrow> error + pyval" where
  "py_first (PList []) = Inl IndexError"
| "py_first (PList (x # xs)) = Inr x"
| "py_first (PStr []) = Inl IndexError"
| "py_first (PStr (c # cs)) = Inr (PStr [c])"
| "py_first (PDict d) = Inl KeyError"
| "py_first _ = Inl TypeError"

text \<open>
  \<^verbatim>\<open>str(x)\<close>. On a list or a dictionary Python prints the \<^verbatim>\<open>repr\<close> of the container;
  that printer is not part of this program and is passed in as \<open>rp\<close>.
\<close>

fun py_str :: "(pyval \<Rightarrow> string) \<Rightarrow> pyval \<Rightarrow> string" where
  "py_str rp PNone = ''None''"
| "py_str rp (PBool b) = (if b then ''True'' else ''False'')"
| "py_str rp (PInt i) = show_int i"
| "py_str rp (PStr s) = s"
| "py_str rp v = rp v"

text \<open>
  \<^verbatim>\<open>int(x)\<close>. A string is stripped of surrounding white space and may carry a sign and
  single underscores between digits; anything else is a \<^verbatim>\<open>ValueError\<close>. \<^verbatim>\<open>None\<close> and
  containers are a \<^verbatim>\<open>TypeError\<close>.
\<close>

definition is_space :: "char \<Rightarrow> bool" where
  "is_space c = (c \<in> set [CHR '' '', CHR 0x09, CHR 0x0A, CHR 0x0B, CHR 0x0C, CHR 0x0D,
                           CHR 0x1C, CHR 0x1D, CHR 0x1E, CHR 0x1F])"

definition strip :: "string \<Rightarrow> string" where
  "strip s = rev (dropWhile is_space (rev (dropWhile is_space s)))"

definition digit_val :: "char \<Rightarrow> int option" where
  "digit_val c = map_of (zip ''0123456789'' [0, 1, 2, 3, 4, 5, 6, 7, 8, 9]) c"

text \<open>\<open>digits acc after_digit s\<close>: the accumulated value, and whether the last character was a digit.\<close>

fun digits :: "int \<Rightarrow> bool \<Rightarrow> string \<Rightarrow> int option" where
  "digits acc after_digit [] = (if after_digit then Some acc else None)"
| "digits acc after_digit (c # cs) =
     (if c = CHR ''_'' then (if after_digit then digits acc False cs else None)
      else (case digit_val c of None \<Rightarrow> None | Some d \<Rightarrow> digits (10 * acc + d) True cs))"

definition parse_int :: "string \<Rightarrow> int option" where
  "parse_int s =
     (case strip s of
        [] \<Rightarrow> None
      | c # cs \<Rightarrow>
          if c = CHR ''-'' then map_option uminus (digits 0 False cs)
          else if c = CHR ''+'' then digits 0 False cs
          else digits 0 False (c # cs))"

fun py_int :: "pyval \<Rightarrow> error + int" where
  "py_int (PInt i) = Inr i"
| "py_int (PBool b) = Inr (if b then 1 else 0)"
| "py_int (PStr s) = (case parse_int s of None \<Rightarrow> Inl ValueError | Some i \<Rightarrow> Inr i)"
| "py_int _ = Inl TypeError"

section \<open>The entity graph\<close>

text \<open>
  The graph is an undirected simple graph: a dictionary from node id to the node's
  attribute dictionary, and at most one edge per unordered pair of ids. Every edge the
  program adds carries a relationship label and the weight 1.0. An edge is stored with
  the orientation of its first insertion; nothing below depends on the orientation.
\<close>

record edge_data =
  relationship :: string
  weight :: rat

record graph =
  g_nodes :: "(string \<times> dict) list"
  g_edges :: "((string \<times> string) \<times> edge_data) list"

definition empty_graph :: graph where
  "empty_graph = \<lparr>g_nodes = [], g_edges = []\<rparr>"

definition node_ids :: "graph \<Rightarrow> string list" where
  "node_ids g = map fst (g_nodes g)"

definition has_node :: "graph \<Rightarrow> string \<Rightarrow> bool" where
  "has_node g n = (n \<in> set (node_ids g))"

text \<open>\<^verbatim>\<open>Graph.add_node(n, **attrs)\<close>: a new node is appended, an existing one has its attributes updated.\<close>

definition nx_add_node :: "graph \<Rightarrow> string \<Rightarrow> dict \<Rightarrow> graph" where
  "nx_add_node g n attrs =
     (case map_of (g_nodes g) n of
        None \<Rightarrow> g\<lparr>g_nodes := g_nodes g @ [(n, attrs)]\<rparr>
      | Some old \<Rightarrow> g\<lparr>g_nodes := AList.update n (dict_update old attrs) (g_nodes g)\<rparr>)"

definition same_pair :: "string \<times> string \<Rightarrow> string \<times> string \<Rightarrow> bool" where
  "same_pair p q = (p = q \<or> (fst p = snd q \<and> snd p = fst q))"

fun set_edge :: "string \<times> string \<Rightarrow> edge_data \<Rightarrow> ((string \<times> string) \<times> edge_data) list
                   \<Rightarrow> ((string \<times> string) \<times> edge_data) list" where
  "set_edge p ed [] = [(p, ed)]"
| "set_edge p ed (e # es) =
     (if same_pair p (fst e) then (fst e, ed) # es else e # set_edge p ed es)"

text \<open>
  \<^verbatim>\<open>Graph.add_edge(u, v, relationship=r, weight=1.0)\<close>: missing endpoints become bare
  nodes; the attributes of an edge already present between the two are overwritten.
\<close>

definition nx_add_edge :: "graph \<Rightarrow> string \<Rightarrow> string \<Rightarrow> edge_data \<Rightarrow> graph" where
  "nx_add_edge g u v ed =
     (let g1 = (if has_node g u then g else g\<lparr>g_nodes := g_nodes g @ [(u, [])]\<rparr>);
          g2 = (if has_node g1 v then g1 else g1\<lparr>g_nodes := g_nodes g1 @ [(v, [])]\<rparr>)
      in g2\<lparr>g_edges := set_edge (u, v) ed (g_edges g2)\<rparr>)"

text \<open>\<^verbatim>\<open>Graph.degree(n)\<close>: a self-loop counts twice.\<close>

definition degree :: "graph \<Rightarrow> string \<Rightarrow> nat" where
  "degree g n =
     length (filter (\<lambda>e. fst (fst e) = n) (g_edges g)) +
     length (filter (\<lambda>e. snd (fst e) = n) (g_edges g))"

definition neighbors :: "graph \<Rightarrow> string \<Rightarrow> string list" where
  "neighbors g n =
     concat (map (\<lambda>e. if fst (fst e) = n then [snd (fst e)]
                      else if snd (fst e) = n then [fst (fst e)] else []) (g_edges g))"

text \<open>\<^verbatim>\<open>Graph.subgraph(S).copy()\<close>: the induced subgraph, as a graph of its own.\<close>

definition subgraph :: "graph \<Rightarrow> string set \<Rightarrow> graph" where
  "subgraph g S =
     \<lparr>g_nodes = filter (\<lambda>nd. fst nd \<in> S) (g_nodes g),
      g_edges = filter (\<lambda>e. fst (fst e) \<in> S \<and> snd (fst e) \<in> S) (g_edges g)\<rparr>"

section \<open>Graph builder\<close>

text \<open>
  An entity record is a dictionary. Its \<^verbatim>\<open>id\<close>, where present, is a string (the data
  model's contract), so the record keeps the id apart from the other fields;
  \<open>entity_dict\<close> is the dictionary the code sees. A database maps a collection name to
  its list of entities. The graph-level \<^verbatim>\<open>database_info\<close> bookkeeping that
  \<^verbatim>\<open>build_graph\<close> attaches is no part of the node and edge structure and is left out,
  and with it the \<^verbatim>\<open>_metadata\<close> entry of a database, which feeds nothing else.
\<close>

record entity =
  ent_id :: "string option"
  ent_fields :: dict

type_synonym database = "(string \<times> entity list) list"

definition entity_dict :: "entity \<Rightarrow> dict" where
  "entity_dict e =
     (case ent_id e of None \<Rightarrow> ent_fields e | Some i \<Rightarrow> (''id'', PStr i) # ent_fields e)"

definition entity_types :: "string list" where
  "entity_types =
     [''countries'', ''vehicles'', ''vehicleTypes'', ''people'', ''peopleTypes'',
      ''areas'', ''militaryOrganizations'', ''representations'']"

definition node_colors :: "(string \<times> string) list" where
  "node_colors =
     [(''country'', ''#FF6B6B''), (''vehicle'', ''#4ECDC4''), (''person'', ''#45B7D1''),
      (''area'', ''#96CEB4''), (''militaryOrganization'', ''#FECA57''),
      (''vehicleType'', ''#A8E6CF''), (''peopleType'', ''#DDA0DD''),
      (''representation'', ''#F8B500'')]"

text \<open>The first name object tagged \<^verbatim>\<open>official\<close>, if any, gives the label.\<close>

fun find_official :: "pyval list \<Rightarrow> pyval option" where
  "find_official [] = None"
| "find_official (PDict d # xs) =
     (if py_eq (get_or d ''nameType'' PNone) (PStr ''official'')
      then Some (get_or d ''value'' (PStr []))
      else find_official xs)"
| "find_official (x # xs) = find_official xs"

fun first_present :: "dict \<Rightarrow> string list \<Rightarrow> pyval option" where
  "first_present e [] = None"
| "first_present e (k # ks) =
     (case map_of e k of None \<Rightarrow> first_present e ks | Some v \<Rightarrow> Some v)"

definition extract_primary_name :: "(pyval \<Rightarrow> string) \<Rightarrow> dict \<Rightarrow> error + pyval" where
  "extract_primary_name rp e =
     (case map_of e ''_primary_name'' of
        Some v \<Rightarrow> Inr v
      | None \<Rightarrow>
          if truthy (get_or e ''names'' PNone) then
            ebind (py_iter (get_or e ''names'' PNone)) (\<lambda>items.
              case find_official items of
                Some v \<Rightarrow> Inr v
              | None \<Rightarrow>
                  ebind (py_first (get_or e ''names'' PNone)) (\<lambda>first_name.
                    case first_name of
                      PDict d \<Rightarrow> Inr (get_or d ''value'' (PStr []))
                    | _ \<Rightarrow> Inr (PStr (py_str rp first_name))))
          else
            (case first_present e [''name'', ''title'', ''value''] of
               Some v \<Rightarrow> Inr (PStr (py_str rp v))
             | None \<Rightarrow> Inr (get_or e ''id'' (PStr ''Unknown''))))"

text \<open>\<open>copy_field e k k'\<close>: the entry \<open>k'\<close> of the result, present when \<open>e\<close> has the field \<open>k\<close>.\<close>

definition copy_field :: "dict \<Rightarrow> string \<Rightarrow> string \<Rightarrow> dict" where
  "copy_field e k k' = (case map_of e k of None \<Rightarrow> [] | Some v \<Rightarrow> [(k', v)])"

definition extract_searchable_attributes :: "dict \<Rightarrow> string \<Rightarrow> dict" where
  "extract_searchable_attributes e entity_type =
     copy_field e ''year'' ''year'' @
     copy_field e ''make'' ''manufacturer'' @
     copy_field e ''model'' ''model'' @
     copy_field e ''owner'' ''owner'' @
     copy_field e ''country'' ''country'' @
     copy_field e ''nationality'' ''nationality'' @
     (if entity_type = ''vehicle'' then
        copy_field e ''vehicleType'' ''vehicle_type'' @ copy_field e ''fuelType'' ''fuel_type''
      else if entity_type = ''person'' then
        copy_field e ''personTypes'' ''person_types'' @ copy_field e ''birthDate'' ''birth_date''
      else if entity_type = ''militaryOrganization'' then
        copy_field e ''organizationType'' ''organization_type'' @
        copy_field e ''personnelStrength'' ''personnel_strength''
      else if entity_type = ''area'' then
        copy_field e ''areaType'' ''area_type'' @
        copy_field e ''administrativeLevel'' ''admin_level''
      else [])"

definition add_node :: "(pyval \<Rightarrow> string) \<Rightarrow> graph \<Rightarrow> string \<Rightarrow> dict \<Rightarrow> string \<Rightarrow> bool
                          \<Rightarrow> error + graph" where
  "add_node rp g node_id e entity_type include_metadata =
     ebind (extract_primary_name rp e) (\<lambda>label.
       let attributes =
             [(''type'', PStr entity_type), (''label'', label),
              (''color'', PStr (case map_of node_colors entity_type of
                                 None \<Rightarrow> ''#808080'' | Some c \<Rightarrow> c))] @
             (if include_metadata then [(''data'', PDict e)] else [])
       in Inr (nx_add_node g node_id
                 (dict_update attributes (extract_searchable_attributes e entity_type))))"

text \<open>
  The state of the node pass: the graph and \<^verbatim>\<open>entity_map\<close>, which maps an id to the
  collection name and record of the entity that last carried it.
\<close>

type_synonym entity_map = "(string \<times> (string \<times> dict)) list"

fun add_entities :: "(pyval \<Rightarrow> string) \<Rightarrow> bool \<Rightarrow> string \<Rightarrow> entity list
                       \<Rightarrow> graph \<times> entity_map \<Rightarrow> error + graph \<times> entity_map" where
  "add_entities rp md entity_type [] st = Inr st"
| "add_entities rp md entity_type (e # es) st =
     (case ent_id e of
        None \<Rightarrow> add_entities rp md entity_type es st
      | Some node_id \<Rightarrow>
          if node_id = [] then add_entities rp md entity_type es st
          else
            ebind (add_node rp (fst st) node_id (entity_dict e) entity_type md) (\<lambda>g'.
              add_entities rp md entity_type es
                (g', AList.update node_id (entity_type, entity_dict e) (snd st))))"

fun add_collections :: "(pyval \<Rightarrow> string) \<Rightarrow> bool \<Rightarrow> database \<Rightarrow> string list
                          \<Rightarrow> graph \<times> entity_map \<Rightarrow> error + graph \<times> entity_map" where
  "add_collections rp md db [] st = Inr st"
| "add_collections rp md db (t # ts) st =
     (case map_of db t of
        None \<Rightarrow> add_collections rp md db ts st
      | Some entities \<Rightarrow>
          ebind (add_entities rp md t entities st) (add_collections rp md db ts))"

subsection \<open>Relationship inference\<close>

definition extract_direct_references :: "(pyval \<Rightarrow> string) \<Rightarrow> dict \<Rightarrow> (string \<times> string) list" where
  "extract_direct_references rp e =
     concat (map (\<lambda>field. case map_of e field of
                             None \<Rightarrow> []
                           | Some v \<Rightarrow> if truthy v then [(field, py_str rp v)] else [])
       [''owner'', ''country'', ''vehicleType'', ''parentArea'', ''headquarters'',
        ''nationality''])"

definition extract_list_references :: "(pyval \<Rightarrow> string) \<Rightarrow> dict \<Rightarrow> (string \<times> string list) list" where
  "extract_list_references rp e =
     concat (map (\<lambda>field. case map_of e field of
                             Some (PList items) \<Rightarrow>
                               (let target_ids = map (py_str rp) (filter truthy items)
                                in if target_ids = [] then [] else [(field, target_ids)])
                           | _ \<Rightarrow> [])
       [''personTypes'', ''childAreas''])"

text \<open>One reference per nested part that has the key; a part that is no dictionary can raise.\<close>

definition part_reference :: "(pyval \<Rightarrow> string) \<Rightarrow> pyval \<Rightarrow> string \<Rightarrow> string
                                \<Rightarrow> error + (string \<times> string list) list" where
  "part_reference rp part k label =
     ebind (py_has part k) (\<lambda>present.
       if present then ebind (py_getitem part k) (\<lambda>v. Inr [(label, [py_str rp v])])
       else Inr [])"

fun temporal_references :: "(pyval \<Rightarrow> string) \<Rightarrow> pyval list \<Rightarrow> error + (string \<times> string list) list" where
  "temporal_references rp [] = Inr []"
| "temporal_references rp (p # ps) =
     ebind (part_reference rp p ''location'' ''temporal_location'') (\<lambda>r.
       ebind (temporal_references rp ps) (\<lambda>rs. Inr (r @ rs)))"

fun state_references :: "(pyval \<Rightarrow> string) \<Rightarrow> pyval list \<Rightarrow> error + (string \<times> string list) list" where
  "state_references rp [] = Inr []"
| "state_references rp (p # ps) =
     ebind (part_reference rp p ''location'' ''state_location'') (\<lambda>r1.
       ebind (part_reference rp p ''organisation'' ''state_organization'') (\<lambda>r2.
         ebind (state_references rp ps) (\<lambda>rs. Inr (r1 @ r2 @ rs))))"

definition extract_hierarchical_references :: "(pyval \<Rightarrow> string) \<Rightarrow> dict
                                                 \<Rightarrow> error + (string \<times> string list) list" where
  "extract_hierarchical_references rp e =
     ebind (case map_of e ''temporalParts'' of
              None \<Rightarrow> Inr []
            | Some tp \<Rightarrow> ebind (py_iter tp) (temporal_references rp)) (\<lambda>r1.
       ebind (case map_of e ''states'' of
                None \<Rightarrow> Inr []
              | Some sts \<Rightarrow> ebind (py_iter sts) (state_references rp)) (\<lambda>r2.
         Inr (r1 @ r2)))"

definition add_edge :: "graph \<Rightarrow> string \<Rightarrow> string \<Rightarrow> string \<Rightarrow> graph" where
  "add_edge g source target relationship_type =
     (if source \<noteq> target
      then nx_add_edge g source target \<lparr>relationship = relationship_type, weight = 1\<rparr>
      else g)"

text \<open>The inner loops of \<^verbatim>\<open>_add_relationships\<close>: one edge per target id that is a known entity.\<close>

definition add_reference_edges :: "entity_map \<Rightarrow> string \<Rightarrow> graph \<Rightarrow> (string \<times> string) list \<Rightarrow> graph" where
  "add_reference_edges em entity_id g refs =
     foldl (\<lambda>acc r. if snd r \<in> set (map fst em) then add_edge acc entity_id (snd r) (fst r) else acc)
       g refs"

definition flatten_refs :: "(string \<times> string list) list \<Rightarrow> (string \<times> string) list" where
  "flatten_refs refs = concat (map (\<lambda>r. map (\<lambda>t. (fst r, t)) (snd r)) refs)"

fun add_relationships_loop :: "(pyval \<Rightarrow> string) \<Rightarrow> entity_map \<Rightarrow> entity_map \<Rightarrow> graph
                                 \<Rightarrow> error + graph" where
  "add_relationships_loop rp em [] g = Inr g"
| "add_relationships_loop rp em (item # items) g =
     (let entity_id = fst item; e = snd (snd item);
          g1 = add_reference_edges em entity_id g (extract_direct_references rp e);
          g2 = add_reference_edges em entity_id g1 (flatten_refs (extract_list_references rp e))
      in ebind (extract_hierarchical_references rp e) (\<lambda>hrefs.
           add_relationships_loop rp em items
             (add_reference_edges em entity_id g2 (flatten_refs hrefs))))"

definition add_relationships :: "(pyval \<Rightarrow> string) \<Rightarrow> graph \<Rightarrow> entity_map \<Rightarrow> error + graph" where
  "add_relationships rp g em = add_relationships_loop rp em em g"

definition build_graph :: "(pyval \<Rightarrow> string) \<Rightarrow> database \<Rightarrow> bool \<Rightarrow> error + graph" where
  "build_graph rp db include_metadata =
     ebind (add_collections rp include_metadata db entity_types (empty_graph, [])) (\<lambda>st.
       add_relationships rp (fst st) (snd st))"

section \<open>Filter system\<close>

text \<open>
  Every filter walks the nodes in order and adds the ids that pass its test to a set.
  A test can raise (a \<^verbatim>\<open>.lower()\<close> on a value that is no string, say); the walk then
  stops with that exception. \<open>collect\<close> is this loop for a given per-node test.
\<close>

fun collect :: "(string \<Rightarrow> dict \<Rightarrow> error + bool) \<Rightarrow> (string \<times> dict) list \<Rightarrow> error + string set" where
  "collect t [] = Inr {}"
| "collect t (nd # nds) =
     ebind (t (fst nd) (snd nd)) (\<lambda>b.
       ebind (collect t nds) (\<lambda>S. Inr (if b then insert (fst nd) S else S)))"

text \<open>\<^verbatim>\<open>data.get(k, '').lower()\<close>\<close>

definition get_lower :: "dict \<Rightarrow> string \<Rightarrow> error + string" where
  "get_lower d k = py_lower (get_or d k (PStr []))"

text \<open>\<^verbatim>\<open>x.get(k, '').lower()\<close> on a value that has to be a dictionary first.\<close>

definition py_get_lower :: "pyval \<Rightarrow> string \<Rightarrow> error + string" where
  "py_get_lower x k = ebind (py_get x k (PStr [])) py_lower"

text \<open>
  The loop over name objects shared by several filters: the first dictionary whose
  lower-cased \<^verbatim>\<open>value\<close> passes \<open>P\<close> ends the loop with a match; other items are skipped.
\<close>

fun names_match :: "(string \<Rightarrow> bool) \<Rightarrow> pyval list \<Rightarrow> error + bool" where
  "names_match P [] = Inr False"
| "names_match P (PDict d # xs) =
     ebind (get_lower d ''value'') (\<lambda>name_value.
       if P name_value then Inr True else names_match P xs)"
| "names_match P (x # xs) = names_match P xs"

text \<open>\<^verbatim>\<open>data.get('data', {})\<close>\<close>

definition entity_data_of :: "dict \<Rightarrow> pyval" where
  "entity_data_of d = get_or d ''data'' (PDict [])"

definition country_test :: "string \<Rightarrow> string \<Rightarrow> dict \<Rightarrow> error + bool" where
  "country_test country_lower node d =
     ebind (get_lower d ''country'') (\<lambda>c.
       if c = country_lower then Inr True
       else ebind (get_lower d ''owner'') (\<lambda>ow.
         if ends_with ow country_lower then Inr True
         else ebind (get_lower d ''nationality'') (\<lambda>na.
           if ends_with na country_lower then Inr True
           else if py_eq (get_or d ''type'' PNone) (PStr ''country'') then
             ebind (py_has (entity_data_of d) ''names'') (\<lambda>present.
               if present then
                 ebind (py_getitem (entity_data_of d) ''names'') (\<lambda>ns.
                   ebind (py_iter ns) (names_match (\<lambda>v. str_contains v country_lower)))
               else Inr False)
           else Inr False)))"

definition filter_by_country :: "graph \<Rightarrow> pyval \<Rightarrow> error + string set" where
  "filter_by_country g country =
     ebind (py_lower country) (\<lambda>country_lower. collect (country_test country_lower) (g_nodes g))"

definition filter_by_type :: "graph \<Rightarrow> pyval \<Rightarrow> error + string set" where
  "filter_by_type g entity_type =
     collect (\<lambda>node d. Inr (py_eq (get_or d ''type'' PNone) entity_type)) (g_nodes g)"

text \<open>\<^verbatim>\<open>try: ... except (ValueError, TypeError): return set()\<close>\<close>

definition caught :: "error \<Rightarrow> bool" where
  "caught e = (e = ValueError \<or> e = TypeError)"

definition year_test :: "int \<Rightarrow> string \<Rightarrow> dict \<Rightarrow> error + bool" where
  "year_test target_year node d =
     (if py_eq (get_or d ''year'' PNone) (PInt target_year) then Inr True
      else ebind (py_get (entity_data_of d) ''year'' PNone) (\<lambda>y.
             Inr (py_eq y (PInt target_year))))"

definition filter_by_year :: "graph \<Rightarrow> pyval \<Rightarrow> error + string set" where
  "filter_by_year g year =
     (case py_int year of
        Inl e \<Rightarrow> if caught e then Inr {} else Inl e
      | Inr target_year \<Rightarrow> collect (year_test target_year) (g_nodes g))"

text \<open>\<^verbatim>\<open>start_year, end_year = map(int, year_range.split('-'))\<close>\<close>

definition parse_year_range :: "pyval \<Rightarrow> error + int \<times> int" where
  "parse_year_range year_range =
     (case year_range of
        PStr s \<Rightarrow>
          (case map parse_int (split_on CHR ''-'' s) of
             [Some a, Some b] \<Rightarrow> Inr (a, b)
           | _ \<Rightarrow> Inl ValueError)
      | _ \<Rightarrow> Inl AttributeError)"

text \<open>\<^verbatim>\<open>y and start_year <= y <= end_year\<close>: ordering an integer against a string or a container raises.\<close>

definition in_range :: "int \<Rightarrow> int \<Rightarrow> pyval \<Rightarrow> error + bool" where
  "in_range start_year end_year y =
     (if truthy y then
        (case num_of y of
           None \<Rightarrow> Inl TypeError
         | Some i \<Rightarrow> Inr (start_year \<le> i \<and> i \<le> end_year))
      else Inr False)"

definition year_range_test :: "int \<Rightarrow> int \<Rightarrow> string \<Rightarrow> dict \<Rightarrow> error + bool" where
  "year_range_test start_year end_year node d =
     ebind (in_range start_year end_year (get_or d ''year'' PNone)) (\<lambda>hit.
       if hit then Inr True
       else ebind (py_get (entity_data_of d) ''year'' PNone) (in_range start_year end_year))"

definition filter_by_year_range :: "graph \<Rightarrow> pyval \<Rightarrow> error + string set" where
  "filter_by_year_range g year_range =
     (case parse_year_range year_range of
        Inl e \<Rightarrow> if caught e then Inr {} else Inl e
      | Inr p \<Rightarrow> collect (year_range_test (fst p) (snd p)) (g_nodes g))"

definition manufacturer_test :: "string \<Rightarrow> string \<Rightarrow> dict \<Rightarrow> error + bool" where
  "manufacturer_test manufacturer_lower node d =
     ebind (get_lower d ''manufacturer'') (\<lambda>node_manufacturer.
       if str_contains node_manufacturer manufacturer_lower then Inr True
       else ebind (py_get_lower (entity_data_of d) ''make'') (\<lambda>entity_manufacturer.
              Inr (str_contains entity_manufacturer manufacturer_lower)))"

definition filter_by_manufacturer :: "graph \<Rightarrow> pyval \<Rightarrow> error + string set" where
  "filter_by_manufacturer g manufacturer =
     ebind (py_lower manufacturer) (\<lambda>ml. collect (manufacturer_test ml) (g_nodes g))"

definition filter_by_owner :: "graph \<Rightarrow> pyval \<Rightarrow> error + string set" where
  "filter_by_owner g owner =
     ebind (py_lower owner) (\<lambda>owner_lower.
       collect (\<lambda>node d. ebind (get_lower d ''owner'') (\<lambda>node_owner.
                  Inr (str_contains node_owner owner_lower))) (g_nodes g))"

text \<open>The three type-restricted filters: the attribute is read only on a node of the required type.\<close>

definition typed_attr_test :: "string \<Rightarrow> string \<Rightarrow> string \<Rightarrow> string \<Rightarrow> dict \<Rightarrow> error + bool" where
  "typed_attr_test required_type attr wanted_lower node d =
     (if py_eq (get_or d ''type'' PNone) (PStr required_type) then
        ebind (get_lower d attr) (\<lambda>v. Inr (str_contains v wanted_lower))
      else Inr False)"

definition filter_by_vehicle_type :: "graph \<Rightarrow> pyval \<Rightarrow> error + string set" where
  "filter_by_vehicle_type g vehicle_type =
     ebind (py_lower vehicle_type) (\<lambda>vl.
       collect (typed_attr_test ''vehicle'' ''vehicle_type'' vl) (g_nodes g))"

definition filter_by_organization_type :: "graph \<Rightarrow> pyval \<Rightarrow> error + string set" where
  "filter_by_organization_type g org_type =
     ebind (py_lower org_type) (\<lambda>ol.
       collect (typed_attr_test ''militaryOrganization'' ''organization_type'' ol) (g_nodes g))"

definition filter_by_area_type :: "graph \<Rightarrow> pyval \<Rightarrow> error + string set" where
  "filter_by_area_type g area_type =
     ebind (py_lower area_type) (\<lambda>al.
       collect (typed_attr_test ''area'' ''area_type'' al) (g_nodes g))"

definition filter_by_relationship :: "graph \<Rightarrow> pyval \<Rightarrow> error + string set" where
  "filter_by_relationship g rel =
     Inr (\<Union>e \<in> set (filter (\<lambda>e. py_eq (PStr (relationship (snd e))) rel) (g_edges g)).
            {fst (fst e), snd (fst e)})"

text \<open>The text fields are tried in order; the first hit ends the loop.\<close>

fun fields_match :: "(string \<Rightarrow> bool) \<Rightarrow> pyval \<Rightarrow> string list \<Rightarrow> error + bool" where
  "fields_match P entity_data [] = Inr False"
| "fields_match P entity_data (field # rest) =
     ebind (py_get_lower entity_data field) (\<lambda>field_value.
       if P field_value then Inr True else fields_match P entity_data rest)"

definition keyword_test :: "string \<Rightarrow> string \<Rightarrow> dict \<Rightarrow> error + bool" where
  "keyword_test keyword_lower node d =
     ebind (get_lower d ''label'') (\<lambda>label.
       if str_contains label keyword_lower then Inr True
       else if str_contains (str_lower node) keyword_lower then Inr True
       else
         ebind (py_has (entity_data_of d) ''names'') (\<lambda>present.
           ebind (if present then
                    ebind (py_get (entity_data_of d) ''names'' (PList [])) (\<lambda>ns.
                      ebind (py_iter ns) (names_match (\<lambda>v. str_contains v keyword_lower)))
                  else Inr False) (\<lambda>in_names.
             ebind (fields_match (\<lambda>v. str_contains v keyword_lower) (entity_data_of d)
                      [''description'', ''title'', ''model'', ''make'']) (\<lambda>in_fields.
               Inr (in_names \<or> in_fields)))))"

definition filter_by_keyword :: "graph \<Rightarrow> pyval \<Rightarrow> error + string set" where
  "filter_by_keyword g keyword =
     ebind (py_lower keyword) (\<lambda>kl. collect (keyword_test kl) (g_nodes g))"

text \<open>A target that is no node id, of whatever shape, gives the empty set.\<close>

definition filter_by_connection :: "graph \<Rightarrow> pyval \<Rightarrow> error + string set" where
  "filter_by_connection g target_node =
     (case target_node of
        PStr n \<Rightarrow> if has_node g n then Inr (insert n (set (neighbors g n))) else Inr {}
      | _ \<Rightarrow> Inr {})"

definition filter_by_min_degree :: "graph \<Rightarrow> pyval \<Rightarrow> error + string set" where
  "filter_by_min_degree g min_degree =
     (case py_int min_degree of
        Inl e \<Rightarrow> if caught e then Inr {} else Inl e
      | Inr min_deg \<Rightarrow> collect (\<lambda>node d. Inr (int (degree g node) \<ge> min_deg)) (g_nodes g))"

definition filter_by_max_degree :: "graph \<Rightarrow> pyval \<Rightarrow> error + string set" where
  "filter_by_max_degree g max_degree =
     (case py_int max_degree of
        Inl e \<Rightarrow> if caught e then Inr {} else Inl e
      | Inr max_deg \<Rightarrow> collect (\<lambda>node d. Inr (int (degree g node) \<le> max_deg)) (g_nodes g))"

subsection \<open>Equipment categories\<close>

definition equipment_categories :: "(string \<times> string list) list" where
  "equipment_categories =
     [(''aircraft_unmanned'',
         [''unmanned aircraft'', ''aircraft'', ''drone'', ''uav'', ''unmanned aerial vehicle'']),
      (''communication_electronics'',
         [''communication equipment'', ''electronic system'', ''computer system'', ''sensor'',
          ''sensor system'', ''equipment'', ''electronic_system'', ''radar'', ''radio'',
          ''electronics'']),
      (''weapons_defense'',
         [''artillery'', ''missile'', ''defense system'', ''weapon'', ''ammunition'', ''gun'',
          ''cannon'', ''launcher'', ''rocket'', ''bomb'']),
      (''vehicles'',
         [''armored vehicle'', ''vehicle'', ''car'', ''motorcycle'', ''truck'', ''bus'', ''van'',
          ''bicycle'', ''tank'', ''apc'', ''armored'']),
      (''naval_assets'',
         [''naval vessel'', ''vessel'', ''boat'', ''watercraft'', ''ship'', ''submarine'',
          ''destroyer'', ''frigate'', ''carrier'']),
      (''transportation'', [''train'', ''railway'', ''locomotive'', ''transport'']),
      (''administrative'', [''organization'', ''other'', ''command'', ''headquarters'', ''base'']),
      (''geographic'',
         [''country'', ''area'', ''coordinates'', ''location'', ''region'', ''territory''])]"

text \<open>
  The keywords of the requested categories. Looking a list or a dictionary up in the
  category table raises (it cannot be hashed); any other value that is no category
  name contributes nothing.
\<close>

fun category_keywords :: "pyval list \<Rightarrow> error + string list" where
  "category_keywords [] = Inr []"
| "category_keywords (PList xs # cs) = Inl TypeError"
| "category_keywords (PDict d # cs) = Inl TypeError"
| "category_keywords (PStr s # cs) =
     ebind (category_keywords cs) (\<lambda>ks.
       Inr ((case map_of equipment_categories s of None \<Rightarrow> [] | Some kws \<Rightarrow> kws) @ ks))"
| "category_keywords (c # cs) = category_keywords cs"

definition any_keyword :: "string list \<Rightarrow> string \<Rightarrow> bool" where
  "any_keyword kws s = list_ex (\<lambda>kw. str_contains s (str_lower kw)) kws"

definition requested_attr_match :: "string list \<Rightarrow> dict \<Rightarrow> bool \<Rightarrow> string \<Rightarrow> error + bool" where
  "requested_attr_match kws d requested attr =
     (if requested then ebind (get_lower d attr) (\<lambda>v. Inr (any_keyword kws v)) else Inr False)"

definition equipment_test :: "string list \<Rightarrow> pyval \<Rightarrow> string \<Rightarrow> dict \<Rightarrow> error + bool" where
  "equipment_test kws categories node d =
     ebind (get_lower d ''type'') (\<lambda>entity_type.
       if any_keyword kws entity_type then Inr True
       else
         ebind (py_has categories ''vehicle'') (\<lambda>v1.
         ebind (if v1 then Inr True else py_has categories ''vehicles'') (\<lambda>want_vehicle.
         ebind (requested_attr_match kws d want_vehicle ''vehicle_type'') (\<lambda>m2.
           if m2 then Inr True
           else
             ebind (py_has categories ''administrative'') (\<lambda>want_admin.
             ebind (requested_attr_match kws d want_admin ''organization_type'') (\<lambda>m3.
               if m3 then Inr True
               else
                 ebind (py_has categories ''geographic'') (\<lambda>want_geo.
                 ebind (requested_attr_match kws d want_geo ''area_type'') (\<lambda>m4.
                   if m4 then Inr True
                   else
                     ebind (get_lower d ''label'') (\<lambda>label.
                       if any_keyword kws label then Inr True
                       else
                         ebind (py_has (entity_data_of d) ''names'') (\<lambda>present.
                         ebind (if present then
                                  ebind (py_get (entity_data_of d) ''names'' (PList [])) (\<lambda>ns.
                                    ebind (py_iter ns) (names_match (any_keyword kws)))
                                else Inr False) (\<lambda>m6.
                           if m6 then Inr True
                           else fields_match (any_keyword kws) (entity_data_of d)
                                  [''description'', ''title'', ''model'', ''make'',
                                   ''classification''])))))))))))"

definition filter_by_equipment_category :: "graph \<Rightarrow> pyval \<Rightarrow> error + string set" where
  "filter_by_equipment_category g categories0 =
     (let categories = (case categories0 of PStr s \<Rightarrow> PList [PStr s] | _ \<Rightarrow> categories0)
      in ebind (py_iter categories) (\<lambda>items.
           ebind (category_keywords items) (\<lambda>kws.
             if kws = [] then Inr {}
             else collect (equipment_test kws categories) (g_nodes g))))"

subsection \<open>Applying filters\<close>

text \<open>The registry \<^verbatim>\<open>available_filters\<close> of the filter system.\<close>

definition available_filters :: "(string \<times> (graph \<Rightarrow> pyval \<Rightarrow> error + string set)) list" where
  "available_filters =
     [(''country'', filter_by_country),
      (''type'', filter_by_type),
      (''year'', filter_by_year),
      (''year_range'', filter_by_year_range),
      (''manufacturer'', filter_by_manufacturer),
      (''owner'', filter_by_owner),
      (''vehicle_type'', filter_by_vehicle_type),
      (''organization_type'', filter_by_organization_type),
      (''area_type'', filter_by_area_type),
      (''relationship'', filter_by_relationship),
      (''keyword'', filter_by_keyword),
      (''has_connection'', filter_by_connection),
      (''degree_min'', filter_by_min_degree),
      (''degree_max'', filter_by_max_degree),
      (''equipment_category'', filter_by_equipment_category)]"

text \<open>
  A filter map is a dictionary from filter name to argument, walked in insertion order.
  The loop of \<^verbatim>\<open>apply_filters\<close> narrows \<^verbatim>\<open>valid_nodes\<close> by each recognised filter.
\<close>

type_synonym filters = "(string \<times> pyval) list"

fun narrow :: "graph \<Rightarrow> filters \<Rightarrow> string set \<Rightarrow> error + string set" where
  "narrow g [] valid_nodes = Inr valid_nodes"
| "narrow g (f # fs) valid_nodes =
     (case map_of available_filters (fst f) of
        Some filter_func \<Rightarrow>
          ebind (filter_func g (snd f)) (\<lambda>filtered_nodes.
            narrow g fs (valid_nodes \<inter> filtered_nodes))
      | None \<Rightarrow> narrow g fs valid_nodes)"

definition apply_filters :: "graph \<Rightarrow> filters \<Rightarrow> error + graph" where
  "apply_filters g fs =
     (if fs = [] then Inr g
      else ebind (narrow g fs (set (node_ids g))) (\<lambda>valid_nodes. Inr (subgraph g valid_nodes)))"

subsection \<open>Logical composition\<close>

text \<open>\<^verbatim>\<open>x.items()\<close>: only dictionaries have the method.\<close>

fun py_items :: "pyval \<Rightarrow> error + dict" where
  "py_items (PDict d) = Inr d"
| "py_items _ = Inl AttributeError"

text \<open>
  The inner loop of \<^verbatim>\<open>_apply_logical_filter\<close> over one condition's filter map:
  \<^verbatim>\<open>filtered_nodes\<close> starts empty and is replaced, not intersected, while it is empty.
\<close>

fun condition_nodes :: "graph \<Rightarrow> filters \<Rightarrow> string set \<Rightarrow> error + string set" where
  "condition_nodes g [] filtered_nodes = Inr filtered_nodes"
| "condition_nodes g (f # fs) filtered_nodes =
     (case map_of available_filters (fst f) of
        Some filter_func \<Rightarrow>
          ebind (filter_func g (snd f)) (\<lambda>nodes.
            condition_nodes g fs
              (if filtered_nodes = {} then nodes else filtered_nodes \<inter> nodes))
      | None \<Rightarrow> condition_nodes g fs filtered_nodes)"

text \<open>The set one condition contributes: its inner filter map, complemented when \<^verbatim>\<open>not\<close> is set.\<close>

definition condition_set :: "graph \<Rightarrow> pyval \<Rightarrow> error + string set" where
  "condition_set g condition =
     ebind (py_getitem condition ''filter'') (\<lambda>f.
       ebind (py_items f) (\<lambda>fs.
         ebind (condition_nodes g fs {}) (\<lambda>filtered_nodes.
           ebind (py_get condition ''not'' (PBool False)) (\<lambda>negate.
             Inr (if truthy negate then set (node_ids g) - filtered_nodes
                  else filtered_nodes)))))"

fun result_sets :: "graph \<Rightarrow> pyval list \<Rightarrow> error + string set list" where
  "result_sets g [] = Inr []"
| "result_sets g (c # cs) =
     ebind (py_has c ''filter'') (\<lambda>present.
       if present then
         ebind (condition_set g c) (\<lambda>s. ebind (result_sets g cs) (\<lambda>rest. Inr (s # rest)))
       else result_sets g cs)"

definition combine_and :: "string set list \<Rightarrow> string set" where
  "combine_and sets = (case sets of [] \<Rightarrow> {} | s # ss \<Rightarrow> foldl (\<inter>) s ss)"

definition combine_or :: "string set list \<Rightarrow> string set" where
  "combine_or sets = foldl (\<union>) {} sets"

definition apply_logical_filter :: "graph \<Rightarrow> dict \<Rightarrow> error + graph" where
  "apply_logical_filter g filter_config =
     (let logic = get_or filter_config ''logic'' (PStr ''AND'');
          conditions = get_or filter_config ''conditions'' (PList [])
      in if \<not> truthy conditions then Inr g
         else ebind (py_iter conditions) (\<lambda>conds.
                ebind (result_sets g conds) (\<lambda>sets.
                  let final_nodes =
                        (if py_eq logic (PStr ''AND'') then combine_and sets
                         else if py_eq logic (PStr ''OR'') then combine_or sets
                         else combine_and sets)
                  in Inr (subgraph g final_nodes))))"

definition create_advanced_filter :: "graph \<Rightarrow> dict \<Rightarrow> error + graph" where
  "create_advanced_filter g filter_config =
     (if ''logic'' \<in> set (map fst filter_config) then apply_logical_filter g filter_config
      else apply_filters g filter_config)"

section \<open>Merging databases\<close>

text \<open>
  \<^verbatim>\<open>combine_databases\<close> walks the sources in the order of the mapping it is given. The
  result holds one list per entity type and the \<^verbatim>\<open>_metadata\<close> entry with the source
  names and the number of entities kept per type.
\<close>

record combined =
  collections :: database
  combined_from :: "string list"
  entity_counts :: "(string \<times> nat) list"

record combine_state =
  cs_combined :: database
  cs_seen_ids :: "string \<Rightarrow> string set"
  cs_counts :: "(string \<times> nat) list"

text \<open>\<^verbatim>\<open>entity_counts[entity_type] += 1\<close> on a \<^verbatim>\<open>defaultdict(int)\<close>\<close>

definition count_up :: "(string \<times> nat) list \<Rightarrow> string \<Rightarrow> (string \<times> nat) list" where
  "count_up counts k =
     AList.update k (case map_of counts k of None \<Rightarrow> 1 | Some n \<Rightarrow> n + 1) counts"

definition tag_source :: "string \<Rightarrow> entity \<Rightarrow> entity" where
  "tag_source db_name e =
     e\<lparr>ent_fields := dict_set (ent_fields e) ''_source_database'' (PStr db_name)\<rparr>"

fun combine_entities :: "string \<Rightarrow> string \<Rightarrow> entity list \<Rightarrow> combine_state \<Rightarrow> combine_state" where
  "combine_entities db_name entity_type [] st = st"
| "combine_entities db_name entity_type (e # es) st =
     (case ent_id e of
        None \<Rightarrow> combine_entities db_name entity_type es st
      | Some entity_id \<Rightarrow>
          if entity_id \<noteq> [] \<and> entity_id \<notin> cs_seen_ids st entity_type then
            combine_entities db_name entity_type es
              \<lparr>cs_combined =
                 AList.map_entry entity_type (\<lambda>kept. kept @ [tag_source db_name e])
                   (cs_combined st),
               cs_seen_ids =
                 (cs_seen_ids st)(entity_type := insert entity_id (cs_seen_ids st entity_type)),
               cs_counts = count_up (cs_counts st) entity_type\<rparr>
          else combine_entities db_name entity_type es st)"

fun combine_types :: "string \<Rightarrow> database \<Rightarrow> string list \<Rightarrow> combine_state \<Rightarrow> combine_state" where
  "combine_types db_name db [] st = st"
| "combine_types db_name db (t # ts) st =
     (case map_of db t of
        None \<Rightarrow> combine_types db_name db ts st
      | Some entities \<Rightarrow> combine_types db_name db ts (combine_entities db_name t entities st))"

fun combine_sources :: "(string \<times> database) list \<Rightarrow> combine_state \<Rightarrow> combine_state" where
  "combine_sources [] st = st"
| "combine_sources (src # srcs) st =
     combine_sources srcs (combine_types (fst src) (snd src) entity_types st)"

definition combine_databases :: "(string \<times> database) list \<Rightarrow> combined" where
  "combine_databases databases =
     (let st = combine_sources databases
                 \<lparr>cs_combined = map (\<lambda>t. (t, [])) entity_types,
                  cs_seen_ids = (\<lambda>t. {}),
                  cs_counts = []\<rparr>
      in \<lparr>collections = cs_combined st,
          combined_from = map fst databases,
          entity_counts = cs_counts st\<rparr>)"

subsection \<open>Merging as stated\<close>

text \<open>
  The merge as the specification words it, one entity type at a time. The candidates of
  a type are the entities of that type of all sources, in the order of the sources and
  within a source in the order of its collection, each with the name of its source.
\<close>

definition collection_of :: "database \<Rightarrow> string \<Rightarrow> entity list" where
  "collection_of db t = (case map_of db t of None \<Rightarrow> [] | Some es \<Rightarrow> es)"

definition candidates :: "(string \<times> database) list \<Rightarrow> string \<Rightarrow> (string \<times> entity) list" where
  "candidates dbs t = concat (map (\<lambda>src. map (Pair (fst src)) (collection_of (snd src) t)) dbs)"

text \<open>
  A candidate is kept when it has an id that no earlier candidate had; the kept entity is
  the candidate with the tag of its source.
\<close>

fun keep_first :: "string set \<Rightarrow> (string \<times> entity) list \<Rightarrow> entity list" where
  "keep_first seen [] = []"
| "keep_first seen (c # cs) =
     (case ent_id (snd c) of
        None \<Rightarrow> keep_first seen cs
      | Some i \<Rightarrow>
          if i \<noteq> [] \<and> i \<notin> seen then tag_source (fst c) (snd c) # keep_first (insert i seen) cs
          else keep_first seen cs)"

text \<open>The non-empty ids that occur among candidates.\<close>

definition ids_of :: "(string \<times> entity) list \<Rightarrow> string set" where
  "ids_of cs = {i. i \<noteq> [] \<and> (\<exists>c \<in> set cs. ent_id (snd c) = Some i)}"

section \<open>Statistics\<close>

subsection \<open>Single-country analysis\<close>

record country_stats =
  total_assets :: nat
  vehicles :: nat
  organizations :: nat
  areas :: nat
  people :: nat
  vehicle_types :: "(pyval \<times> nat) list"
  organization_types :: "(pyval \<times> nat) list"
  manufacturers :: "(pyval \<times> nat) list"
  timeline :: "(pyval \<times> nat) list"

text \<open>\<^verbatim>\<open>counter[key] += 1\<close>: a list or a dictionary cannot be a key.\<close>

fun bump :: "(pyval \<times> nat) list \<Rightarrow> pyval \<Rightarrow> (pyval \<times> nat) list" where
  "bump [] k = [(k, 1)]"
| "bump (kn # rest) k =
     (if py_eq (fst kn) k then (fst kn, snd kn + 1) # rest else kn # bump rest k)"

fun counter_inc :: "(pyval \<times> nat) list \<Rightarrow> pyval \<Rightarrow> error + (pyval \<times> nat) list" where
  "counter_inc c (PList xs) = Inl TypeError"
| "counter_inc c (PDict d) = Inl TypeError"
| "counter_inc c k = Inr (bump c k)"

text \<open>The membership test: the first of owner, country, nationality and (for a country node) label that contains the token decides.\<close>

definition belongs_to_country :: "string \<Rightarrow> dict \<Rightarrow> error + bool" where
  "belongs_to_country country d =
     ebind (get_lower d ''owner'') (\<lambda>ow.
       if str_contains ow (str_lower country) then Inr True
       else ebind (get_lower d ''country'') (\<lambda>c.
         if str_contains c (str_lower country) then Inr True
         else ebind (get_lower d ''nationality'') (\<lambda>na.
           if str_contains na (str_lower country) then Inr True
           else if py_eq (get_or d ''type'' PNone) (PStr ''country'') then
             ebind (get_lower d ''label'') (\<lambda>label. Inr (str_contains label (str_lower country)))
           else Inr False)))"

definition count_asset :: "dict \<Rightarrow> country_stats \<Rightarrow> error + country_stats" where
  "count_asset d st0 =
     (let entity_type = get_or d ''type'' PNone;
          st = st0\<lparr>total_assets := total_assets st0 + 1\<rparr>
      in ebind
           (if py_eq entity_type (PStr ''vehicle'') then
              ebind (counter_inc (vehicle_types st) (get_or d ''vehicle_type'' (PStr ''unknown'')))
                (\<lambda>vt.
                  ebind (counter_inc (manufacturers st)
                           (get_or d ''manufacturer'' (PStr ''unknown''))) (\<lambda>mf.
                    Inr (st\<lparr>vehicles := vehicles st + 1, vehicle_types := vt,
                             manufacturers := mf\<rparr>)))
            else if py_eq entity_type (PStr ''militaryOrganization'') then
              ebind (counter_inc (organization_types st)
                       (get_or d ''organization_type'' (PStr ''unknown''))) (\<lambda>ot.
                Inr (st\<lparr>organizations := organizations st + 1, organization_types := ot\<rparr>))
            else if py_eq entity_type (PStr ''area'') then Inr (st\<lparr>areas := areas st + 1\<rparr>)
            else if py_eq entity_type (PStr ''person'') then Inr (st\<lparr>people := people st + 1\<rparr>)
            else Inr st)
           (\<lambda>st'.
             if truthy (get_or d ''year'' PNone) then
               ebind (counter_inc (timeline st') (get_or d ''year'' PNone)) (\<lambda>tl.
                 Inr (st'\<lparr>timeline := tl\<rparr>))
             else Inr st'))"

fun analyze_nodes :: "string \<Rightarrow> (string \<times> dict) list \<Rightarrow> country_stats \<Rightarrow> error + country_stats" where
  "analyze_nodes country [] st = Inr st"
| "analyze_nodes country (nd # nds) st =
     ebind (belongs_to_country country (snd nd)) (\<lambda>belongs.
       if belongs then ebind (count_asset (snd nd) st) (analyze_nodes country nds)
       else analyze_nodes country nds st)"

definition analyze_single_country :: "graph \<Rightarrow> string \<Rightarrow> error + country_stats" where
  "analyze_single_country g country =
     analyze_nodes country (g_nodes g)
       \<lparr>total_assets = 0, vehicles = 0, organizations = 0, areas = 0, people = 0,
        vehicle_types = [], organization_types = [], manufacturers = [], timeline = []\<rparr>"

subsection \<open>Floating-point arithmetic\<close>

text \<open>
  The scores are Python floats, that is IEEE 754 binary64 numbers. A finite float is
  modelled by the rational number it denotes. Every operation computes the exact result
  and rounds it to the nearest binary64 number, ties to the even significand: the true
  division of two integers, the product and the sum of two floats, and the reading of
  a decimal literal. A binary64 number is an integer multiple of a power of two with a
  significand below \<open>2 ^ 53\<close> and an exponent not below \<open>- 1074\<close>. The operands below are
  lengths of lists and quotients, products and sums of them with the weights, all far
  below \<open>2 ^ 1024\<close>, so the overflow to infinity is left out of the model.
\<close>

type_synonym pyfloat = rat

definition round_half_even :: "rat \<Rightarrow> int" where
  "round_half_even x =
     (let n = \<lfloor>x\<rfloor>; r = x - of_int n
      in if r < 1 / 2 then n else if 1 / 2 < r then n + 1 else if even n then n else n + 1)"

definition pow2 :: "int \<Rightarrow> rat" where
  "pow2 e = (if 0 \<le> e then 2 ^ nat e else 1 / 2 ^ nat (- e))"

text \<open>The exponent of the leading bit of a positive rational: \<open>pow2 k \<le> x < pow2 (k + 1)\<close>.\<close>

definition ilog2 :: "rat \<Rightarrow> int" where
  "ilog2 x =
     (let k = bitlen (fst (quotient_of x)) - bitlen (snd (quotient_of x))
      in if pow2 k \<le> x then k else k - 1)"

definition binary64 :: "rat \<Rightarrow> pyfloat" where
  "binary64 x =
     (if x = 0 then 0
      else let e = max (ilog2 \<bar>x\<bar> - 52) (- 1074)
           in of_int (round_half_even (x / pow2 e)) * pow2 e)"

text \<open>\<^verbatim>\<open>a * b\<close> and \<^verbatim>\<open>a + b\<close> on floats\<close>

definition fmul :: "pyfloat \<Rightarrow> pyfloat \<Rightarrow> pyfloat" where
  "fmul a b = binary64 (a * b)"

definition fadd :: "pyfloat \<Rightarrow> pyfloat \<Rightarrow> pyfloat" where
  "fadd a b = binary64 (a + b)"

text \<open>
  \<^verbatim>\<open>a / b\<close> on two integers, here two counts. The divisor is \<^verbatim>\<open>max(1, n)\<close> at each use,
  so the division by zero does not arise.
\<close>

definition int_truediv :: "nat \<Rightarrow> nat \<Rightarrow> pyfloat" where
  "int_truediv a b = binary64 (of_nat a / of_nat b)"

subsection \<open>Data-quality score\<close>

text \<open>\<^verbatim>\<open>field in data and data[field]\<close>\<close>

definition filled :: "dict \<Rightarrow> string \<Rightarrow> bool" where
  "filled d field = (case map_of d field of None \<Rightarrow> False | Some v \<Rightarrow> truthy v)"

text \<open>\<^verbatim>\<open>required_fields + optional_fields\<close>\<close>

definition quality_fields :: "string list" where
  "quality_fields = [''type'', ''label''] @ [''year'', ''country'', ''manufacturer'', ''owner'']"

definition calculate_completeness_score :: "graph \<Rightarrow> pyfloat" where
  "calculate_completeness_score g =
     (let total_fields = length (g_nodes g) * length quality_fields;
          filled_fields =
            sum_list (map (\<lambda>nd. length (filter (filled (snd nd)) quality_fields)) (g_nodes g))
      in int_truediv filled_fields (max 1 total_fields))"

definition canonical_types :: "string list" where
  "canonical_types = [''country'', ''vehicle'', ''person'', ''area'', ''militaryOrganization'']"

text \<open>\<^verbatim>\<open>'type' in data and data['type'] in [...]\<close>\<close>

definition consistent :: "dict \<Rightarrow> bool" where
  "consistent d =
     (case map_of d ''type'' of
        None \<Rightarrow> False
      | Some v \<Rightarrow> list_ex (\<lambda>t. py_eq v (PStr t)) canonical_types)"

definition calculate_consistency_score :: "graph \<Rightarrow> pyfloat" where
  "calculate_consistency_score g =
     (let total_items = length (g_nodes g);
          consistent_items = length (filter (\<lambda>nd. consistent (snd nd)) (g_nodes g))
      in int_truediv consistent_items (max 1 total_items))"

definition calculate_data_quality_score :: "graph \<Rightarrow> pyfloat" where
  "calculate_data_quality_score g =
     (if length (g_nodes g) = 0 then 0
      else
        let connectivity_score = int_truediv (length (g_edges g)) (max 1 (length (g_nodes g)));
            completeness_score = calculate_completeness_score g;
            consistency_score = calculate_consistency_score g;
            quality_score =
              fadd (fadd (fmul connectivity_score (binary64 (3 / 10)))
                         (fmul completeness_score (binary64 (5 / 10))))
                   (fmul consistency_score (binary64 (2 / 10)))
        in min 1 quality_score)"

section \<open>Graphs as objects\<close>

text \<open>
  A graph is a mutable object and the program passes references to it. To say which
  objects a call reads, writes and creates, the live graph objects are kept in a store
  and a reference is an index into it. \<^verbatim>\<open>Graph.copy()\<close> and
  \<^verbatim>\<open>Graph.subgraph(S).copy()\<close> allocate a new object.
\<close>

type_synonym ref = nat

type_synonym store = "graph list"

definition nx_copy :: "ref \<Rightarrow> store \<Rightarrow> ref \<times> store" where
  "nx_copy graph st = (length st, st @ [st ! graph])"

definition nx_subgraph_copy :: "ref \<Rightarrow> string set \<Rightarrow> store \<Rightarrow> ref \<times> store" where
  "nx_subgraph_copy graph S st = (length st, st @ [subgraph (st ! graph) S])"

text \<open>
  The call \<^verbatim>\<open>filter_func(graph, filter_value)\<close>. Every registered filter only iterates
  over \<^verbatim>\<open>graph.nodes\<close> and \<^verbatim>\<open>graph.edges\<close> and asks for \<^verbatim>\<open>graph.degree\<close> and
  \<^verbatim>\<open>graph.neighbors\<close>; it is the function of the graph's value given above, and run
  on a reference it hands the store on as it found it.
\<close>

definition call_filter ::
  "(graph \<Rightarrow> pyval \<Rightarrow> error + string set) \<Rightarrow> ref \<Rightarrow> pyval \<Rightarrow> store
     \<Rightarrow> (error + string set) \<times> store" where
  "call_filter filter_func graph filter_value st = (filter_func (st ! graph) filter_value, st)"

text \<open>The loop and the body of \<^verbatim>\<open>apply_filters\<close>, on a reference; an exception ends the call with the store as it is then.\<close>

fun narrow_in :: "ref \<Rightarrow> filters \<Rightarrow> string set \<Rightarrow> store \<Rightarrow> (error + string set) \<times> store" where
  "narrow_in graph [] valid_nodes st = (Inr valid_nodes, st)"
| "narrow_in graph (f # fs) valid_nodes st =
     (case map_of available_filters (fst f) of
        Some filter_func \<Rightarrow>
          (case call_filter filter_func graph (snd f) st of
             (Inl e, st') \<Rightarrow> (Inl e, st')
           | (Inr filtered_nodes, st') \<Rightarrow>
               narrow_in graph fs (valid_nodes \<inter> filtered_nodes) st')
      | None \<Rightarrow> narrow_in graph fs valid_nodes st)"

definition apply_filters_in :: "ref \<Rightarrow> filters \<Rightarrow> store \<Rightarrow> (error + ref) \<times> store" where
  "apply_filters_in graph fs st =
     (if fs = [] then (case nx_copy graph st of (r, st') \<Rightarrow> (Inr r, st'))
      else
        (case narrow_in graph fs (set (node_ids (st ! graph))) st of
           (Inl e, st') \<Rightarrow> (Inl e, st')
         | (Inr valid_nodes, st') \<Rightarrow>
             (case nx_subgraph_copy graph valid_nodes st' of (r, st'') \<Rightarrow> (Inr r, st''))))"

section \<open>Well-formed graphs and the stated properties\<close>

text \<open>
  The invariant of the graph library: node ids are unique, both endpoints of an edge
  are nodes, and no unordered pair of ids carries two edges.
\<close>

definition upair :: "string \<times> string \<Rightarrow> string set" where
  "upair p = {fst p, snd p}"

definition wf_graph :: "graph \<Rightarrow> bool" where
  "wf_graph g =
     (distinct (node_ids g) \<and>
      (\<forall>e \<in> set (g_edges g). fst (fst e) \<in> set (node_ids g) \<and> snd (fst e) \<in> set (node_ids g)) \<and>
      distinct (map (\<lambda>e. upair (fst e)) (g_edges g)))"

subsection \<open>The data-quality score as stated\<close>

text \<open>
  The score as the specification words it. A slot is one of the six attributes of one
  node; it is non-empty when the node has the attribute and the value is none of the
  empty values. Completeness is the share of the non-empty slots among all slots,
  consistency the share of the nodes whose type is one of the five canonical types, and
  the score is the weighted sum of these two and of the edges per node, capped at 1.
\<close>

definition empty_values :: "pyval list" where
  "empty_values = [PNone, PBool False, PInt 0, PStr [], PList [], PDict []]"

definition non_empty_slot :: "(string \<times> dict) \<times> string \<Rightarrow> bool" where
  "non_empty_slot s =
     (case map_of (snd (fst s)) (snd s) of None \<Rightarrow> False | Some v \<Rightarrow> v \<notin> set empty_values)"

definition spec_completeness :: "graph \<Rightarrow> pyfloat" where
  "spec_completeness g =
     (let slots = List.product (g_nodes g)
                    [''type'', ''label'', ''year'', ''country'', ''manufacturer'', ''owner'']
      in if slots = [] then 0
         else int_truediv (length (filter non_empty_slot slots)) (length slots))"

definition has_canonical_type :: "string \<times> dict \<Rightarrow> bool" where
  "has_canonical_type nd =
     (map_of (snd nd) ''type'' \<in>
        {Some (PStr ''country''), Some (PStr ''vehicle''), Some (PStr ''person''),
         Some (PStr ''area''), Some (PStr ''militaryOrganization'')})"

definition spec_consistency :: "graph \<Rightarrow> pyfloat" where
  "spec_consistency g =
     (if g_nodes g = [] then 0
      else int_truediv (length (filter has_canonical_type (g_nodes g))) (length (g_nodes g)))"

definition spec_quality_score :: "graph \<Rightarrow> pyfloat" where
  "spec_quality_score g =
     min 1 (fadd (fadd (fmul (binary64 (3 / 10))
                         (int_truediv (length (g_edges g)) (max 1 (length (g_nodes g)))))
                       (fmul (binary64 (5 / 10)) (spec_completeness g)))
                 (fmul (binary64 (2 / 10)) (spec_consistency g)))"

definition sample_graph :: graph where
  "sample_graph =
     \<lparr>g_nodes =
        [(''a'', [(''type'', PStr ''vehicle''), (''label'', PStr ''A''), (''year'', PInt 1990)]),
         (''b'', [(''type'', PStr ''countries''), (''label'', PStr [])])],
      g_edges = [((''a'', ''b''), \<lparr>relationship = ''owner'', weight = 1\<rparr>)]\<rparr>"

subsection \<open>What a filter map matches\<close>

text \<open>The outcome of one entry of a filter map: nothing for an unrecognised name, else what the registered filter returns.\<close>

definition matched :: "graph \<Rightarrow> string \<times> pyval \<Rightarrow> (error + string set) option" where
  "matched g f =
     (case map_of available_filters (fst f) of
        None \<Rightarrow> None
      | Some filter_func \<Rightarrow> Some (filter_func g (snd f)))"

subsection \<open>An advanced-filter configuration\<close>

text \<open>
  One condition whose inner filter map holds a type no node has and a degree bound
  every node meets.
\<close>

definition inner_filters :: filters where
  "inner_filters = [(''type'', PStr ''tank''), (''degree_min'', PInt 0)]"

definition advanced_config :: dict where
  "advanced_config =
     [(''logic'', PStr ''AND''),
      (''conditions'', PList [PDict [(''filter'', PDict inner_filters)]])]"

subsection \<open>The outcome of a filter map\<close>

text \<open>
  The node set that survives a filter map: the nodes of the graph that lie in the matched
  set of every recognised filter of the map.
\<close>

definition surviving_nodes :: "graph \<Rightarrow> filters \<Rightarrow> string set" where
  "surviving_nodes g fs =
     set (node_ids g) \<inter> \<Inter>{S. \<exists>f \<in> set fs. matched g f = Some (Inr S)}"

text \<open>The edges of a graph as unordered pairs of ids with their attributes.\<close>

definition undirected_edges :: "graph \<Rightarrow> (string set \<times> edge_data) set" where
  "undirected_edges g = (\<lambda>e. (upair (fst e), snd e)) ` set (g_edges g)"

section \<open>Built graphs\<close>

text \<open>
  Where a node of a built graph comes from: an entity of one of the eight collections.
  The name of the collection is the node's type and the id of the entity is the node's id.
\<close>

definition from_collection :: "database \<Rightarrow> string \<times> dict \<Rightarrow> bool" where
  "from_collection db nd =
     (\<exists>t \<in> set entity_types.
        map_of (snd nd) ''type'' = Some (PStr t) \<and>
        (\<exists>e \<in> set (case map_of db t of None \<Rightarrow> [] | Some es \<Rightarrow> es). ent_id e = Some (fst nd)))"

text \<open>
  What holds after the node pass of \<^verbatim>\<open>build_graph\<close>: every node comes from a collection,
  every entry of the entity map has its node, and there is no edge yet.
\<close>

definition node_pass_inv :: "database \<Rightarrow> graph \<times> entity_map \<Rightarrow> bool" where
  "node_pass_inv db st =
     ((\<forall>nd \<in> set (g_nodes (fst st)). from_collection db nd) \<and>
      fst ` set (snd st) \<subseteq> set (node_ids (fst st)) \<and>
      g_edges (fst st) = [])"

subsection \<open>The edge insertions of the relationship pass\<close>

text \<open>
  The relationship pass calls \<^verbatim>\<open>_add_edge(graph, entity_id, target_id, field)\<close> once for
  every reference of an entity to a known entity: entity by entity in the order of the
  entity map, the direct references first, then the list references, then the
  hierarchical ones. An insertion is the triple of source id, target id and relationship;
  \<open>build_edge_calls\<close> is the sequence of the insertions of a build, in the order they are
  made.
\<close>

type_synonym edge_call = "string \<times> string \<times> string"

definition entity_references :: "(pyval \<Rightarrow> string) \<Rightarrow> dict \<Rightarrow> error + (string \<times> string) list" where
  "entity_references rp e =
     ebind (extract_hierarchical_references rp e) (\<lambda>hrefs.
       Inr (extract_direct_references rp e @ flatten_refs (extract_list_references rp e)
            @ flatten_refs hrefs))"

fun edge_calls :: "(pyval \<Rightarrow> string) \<Rightarrow> entity_map \<Rightarrow> entity_map \<Rightarrow> error + edge_call list" where
  "edge_calls rp em [] = Inr []"
| "edge_calls rp em (item # items) =
     ebind (entity_references rp (snd (snd item))) (\<lambda>refs.
       ebind (edge_calls rp em items) (\<lambda>rest.
         Inr (map (\<lambda>r. (fst item, snd r, fst r))
                (filter (\<lambda>r. snd r \<in> set (map fst em)) refs) @ rest)))"

definition build_edge_calls :: "(pyval \<Rightarrow> string) \<Rightarrow> database \<Rightarrow> bool \<Rightarrow> error + edge_call list" where
  "build_edge_calls rp db include_metadata =
     ebind (add_collections rp include_metadata db entity_types (empty_graph, [])) (\<lambda>st.
       edge_calls rp (snd st) (snd st))"

text \<open>One insertion on a graph, and what it does to the list of edges.\<close>

definition apply_call :: "graph \<Rightarrow> edge_call \<Rightarrow> graph" where
  "apply_call g c = add_edge g (fst c) (fst (snd c)) (snd (snd c))"

definition edge_step :: "((string \<times> string) \<times> edge_data) list \<Rightarrow> edge_call
                           \<Rightarrow> ((string \<times> string) \<times> edge_data) list" where
  "edge_step es c =
     (if fst c \<noteq> fst (snd c)
      then set_edge (fst c, fst (snd c)) \<lparr>relationship = snd (snd c), weight = 1\<rparr> es
      else es)"

text \<open>
  The relationship of the last insertion that joins the two distinct ids of the pair \<open>P\<close>,
  in either direction.
\<close>

definition last_label :: "edge_call list \<Rightarrow> string set \<Rightarrow> string option" where
  "last_label calls P =
     (let hits = filter (\<lambda>c. fst c \<noteq> fst (snd c) \<and> upair (fst c, fst (snd c)) = P) calls
      in if hits = [] then None else Some (snd (snd (last hits))))"

text \<open>
  The invariant of the edge list under the insertions made so far: one edge per unordered
  pair, no self-loop, every edge labelled by the last insertion between its ends, and an
  edge for every insertion between two distinct ids.
\<close>

definition edges_inv :: "edge_call list \<Rightarrow> ((string \<times> string) \<times> edge_data) list \<Rightarrow> bool" where
  "edges_inv calls es =
     (distinct (map (\<lambda>e. upair (fst e)) es) \<and>
      (\<forall>e \<in> set es. fst (fst e) \<noteq> snd (fst e)) \<and>
      (\<forall>e \<in> set es. last_label calls (upair (fst e)) = Some (relationship (snd e))) \<and>
      (\<forall>c \<in> set calls. fst c \<noteq> fst (snd c) \<longrightarrow>
         upair (fst c, fst (snd c)) \<in> (\<lambda>e. upair (fst e)) ` set es))"

section \<open>Scenarios\<close>

text \<open>
  The end-to-end scenario: a country, a vehicle owned by it and the vehicle's type. The
  graph below is what \<^verbatim>\<open>build_graph\<close> makes of it, with the entity records attached to
  the nodes.
\<close>

definition scenario_db :: database where
  "scenario_db =
     [(''countries'',
        [\<lparr>ent_id = Some ''c1'',
          ent_fields = [(''names'', PList [PDict [(''nameType'', PStr ''official''),
                                                   (''value'', PStr ''UK'')]])]\<rparr>]),
      (''vehicles'',
        [\<lparr>ent_id = Some ''v1'',
          ent_fields = [(''owner'', PStr ''c1''), (''vehicleType'', PStr ''vt1''),
                        (''year'', PInt 1990), (''make'', PStr ''BAE'')]\<rparr>]),
      (''vehicleTypes'', [\<lparr>ent_id = Some ''vt1'', ent_fields = []\<rparr>])]"

definition v1_attributes :: dict where
  "v1_attributes =
     [(''type'', PStr ''vehicles''), (''label'', PStr ''v1''), (''color'', PStr ''#808080''),
      (''data'', PDict [(''id'', PStr ''v1''), (''owner'', PStr ''c1''),
                        (''vehicleType'', PStr ''vt1''), (''year'', PInt 1990),
                        (''make'', PStr ''BAE'')]),
      (''year'', PInt 1990), (''manufacturer'', PStr ''BAE''), (''owner'', PStr ''c1'')]"

definition scenario_nodes :: "(string \<times> dict) list" where
  "scenario_nodes =
        [(''c1'',
          [(''type'', PStr ''countries''), (''label'', PStr ''UK''), (''color'', PStr ''#808080''),
           (''data'', PDict [(''id'', PStr ''c1''),
                             (''names'', PList [PDict [(''nameType'', PStr ''official''),
                                                       (''value'', PStr ''UK'')]])])]),
         (''v1'', v1_attributes),
         (''vt1'',
          [(''type'', PStr ''vehicleTypes''), (''label'', PStr ''vt1''),
           (''color'', PStr ''#808080''), (''data'', PDict [(''id'', PStr ''vt1'')])])]"

definition scenario_graph :: graph where
  "scenario_graph =
     \<lparr>g_nodes = scenario_nodes,
      g_edges = [((''v1'', ''c1''), \<lparr>relationship = ''owner'', weight = 1\<rparr>),
                 ((''v1'', ''vt1''), \<lparr>relationship = ''vehicleType'', weight = 1\<rparr>)]\<rparr>"

definition scenario_entity_map :: entity_map where
  "scenario_entity_map =
     [(''c1'', ''countries'', [(''id'', PStr ''c1''),
                             (''names'', PList [PDict [(''nameType'', PStr ''official''),
                                                       (''value'', PStr ''UK'')]])]),
      (''v1'', ''vehicles'', [(''id'', PStr ''v1''), (''owner'', PStr ''c1''),
                        (''vehicleType'', PStr ''vt1''), (''year'', PInt 1990),
                        (''make'', PStr ''BAE'')]),
      (''vt1'', ''vehicleTypes'', [(''id'', PStr ''vt1'')])]"

text \<open>The statistics record of a country to which no node belongs.\<close>

definition empty_stats :: country_stats where
  "empty_stats =
     \<lparr>total_assets = 0, vehicles = 0, organizations = 0, areas = 0, people = 0,
      vehicle_types = [], organization_types = [], manufacturers = [], timeline = []\<rparr>"

text \<open>
  Two relationship fields of one vehicle name the same country, and an area names itself
  as its parent.
\<close>

definition overwrite_db :: database where
  "overwrite_db =
     [(''countries'', [\<lparr>ent_id = Some ''c1'', ent_fields = []\<rparr>]),
      (''vehicles'',
        [\<lparr>ent_id = Some ''v1'',
          ent_fields = [(''owner'', PStr ''c1''), (''country'', PStr ''c1'')]\<rparr>]),
      (''areas'', [\<lparr>ent_id = Some ''a1'', ent_fields = [(''parentArea'', PStr ''a1'')]\<rparr>])]"

definition overwrite_nodes :: "(string \<times> dict) list" where
  "overwrite_nodes =
     [(''c1'', [(''type'', PStr ''countries''), (''label'', PStr ''c1''),
               (''color'', PStr ''#808080'')]),
      (''v1'', [(''type'', PStr ''vehicles''), (''label'', PStr ''v1''),
               (''color'', PStr ''#808080''), (''owner'', PStr ''c1''),
               (''country'', PStr ''c1'')]),
      (''a1'', [(''type'', PStr ''areas''), (''label'', PStr ''a1''),
               (''color'', PStr ''#808080'')])]"

definition overwrite_entity_map :: entity_map where
  "overwrite_entity_map =
     [(''c1'', ''countries'', [(''id'', PStr ''c1'')]),
      (''v1'', ''vehicles'', [(''id'', PStr ''v1''), (''owner'', PStr ''c1''),
                            (''country'', PStr ''c1'')]),
      (''a1'', ''areas'', [(''id'', PStr ''a1''), (''parentArea'', PStr ''a1'')])]"

definition overwrite_graph :: graph where
  "overwrite_graph =
     \<lparr>g_nodes = overwrite_nodes,
      g_edges = [((''v1'', ''c1''), \<lparr>relationship = ''country'', weight = 1\<rparr>)]\<rparr>"

definition overwrite_calls :: "edge_call list" where
  "overwrite_calls =
     [(''v1'', ''c1'', ''owner''), (''v1'', ''c1'', ''country''), (''a1'', ''a1'', ''parentArea'')]"

text \<open>
  The text of a list or a dictionary under \<^verbatim>\<open>str\<close> is a parameter of the builder; no
  scenario here reaches it, and this one stands in for it.
\<close>

definition plain_repr :: "pyval \<Rightarrow> string" where
  "plain_repr v = []"

text \<open>
  Two sources that both hold a vehicle with the id \<^verbatim>\<open>v1\<close>; the second also holds an area
  with that id.
\<close>

definition two_sources :: "(string \<times> database) list" where
  "two_sources =
     [(''first'', [(''vehicles'', [\<lparr>ent_id = Some ''v1'', ent_fields = [(''make'', PStr ''X'')]\<rparr>])]),
      (''second'',
         [(''vehicles'', [\<lparr>ent_id = Some ''v1'', ent_fields = [(''make'', PStr ''Y'')]\<rparr>,
                          \<lparr>ent_id = Some ''v2'', ent_fields = []\<rparr>]),
          (''areas'', [\<lparr>ent_id = Some ''v1'', ent_fields = []\<rparr>])])]"

section \<open>Basic facts\<close>

lemma py_eq_PStr [simp]: "py_eq v (PStr t) = (v = PStr t)"
  by (cases v) auto

lemma wf_no_nodes: "wf_graph g \<Longrightarrow> g_nodes g = [] \<Longrightarrow> g_edges g = []"
  by (cases "g_edges g") (auto simp: wf_graph_def node_ids_def)

lemma wf_sample: "wf_graph sample_graph"
  by (simp add: wf_graph_def sample_graph_def node_ids_def same_pair_def)

section \<open>Data-quality score\<close>

subsection \<open>Rounding keeps the sign\<close>

lemma pow2_pos: "0 < pow2 e"
  by (simp add: pow2_def)

lemma round_half_even_nonneg: "0 \<le> x \<Longrightarrow> 0 \<le> round_half_even x"
  by (simp add: round_half_even_def Let_def)

lemma binary64_nonneg: "0 \<le> x \<Longrightarrow> 0 \<le> binary64 x"
  by (simp add: binary64_def Let_def pow2_pos round_half_even_nonneg less_imp_le)

lemma binary64_zero: "binary64 0 = 0"
  by (simp add: binary64_def)

lemma fmul_nonneg: "0 \<le> a \<Longrightarrow> 0 \<le> b \<Longrightarrow> 0 \<le> fmul a b"
  by (simp add: fmul_def binary64_nonneg)

lemma fadd_nonneg: "0 \<le> a \<Longrightarrow> 0 \<le> b \<Longrightarrow> 0 \<le> fadd a b"
  by (simp add: fadd_def binary64_nonneg)

lemma int_truediv_nonneg: "0 \<le> int_truediv a b"
  by (simp add: int_truediv_def binary64_nonneg)

lemma fmul_commute: "fmul a b = fmul b a"
  by (simp add: fmul_def mult.commute)

lemma weights_nonneg:
  "0 \<le> binary64 (3 / 10) \<and> 0 \<le> binary64 (5 / 10) \<and> 0 \<le> binary64 (2 / 10)"
  by (simp add: binary64_nonneg)

subsection \<open>Rounding on examples\<close>

text \<open>
  The three weights as floats, a quotient that is no float, and two ties: the float
  after 1 is \<open>1 + 1 / 2 ^ 52\<close>, so the first number lies halfway between 1
  and its neighbour and the second halfway between the next two floats.
\<close>

lemma binary64_weights:
  "binary64 (3 / 10) = 5404319552844595 / 18014398509481984
   \<and> binary64 (5 / 10) = 1 / 2
   \<and> binary64 (2 / 10) = 3602879701896397 / 18014398509481984"
  by code_simp

lemma int_truediv_third: "int_truediv 1 3 = 6004799503160661 / 18014398509481984"
  by code_simp

lemma binary64_ties_to_even:
  "binary64 (9007199254740993 / 9007199254740992) = 1
   \<and> binary64 (9007199254740995 / 9007199254740992) = 4503599627370498 / 4503599627370496"
  by code_simp

subsection \<open>The counts of the code are the shares of the specification\<close>

lemma filled_iff: "filled (snd nd) field = non_empty_slot (nd, field)"
proof (cases "map_of (snd nd) field")
  case None
  then show ?thesis by (simp add: filled_def non_empty_slot_def)
next
  case (Some v)
  then show ?thesis
    by (cases v) (auto simp: filled_def non_empty_slot_def empty_values_def)
qed

lemma consistent_iff: "consistent (snd nd) = has_canonical_type nd"
  by (cases "map_of (snd nd) ''type''")
     (auto simp: consistent_def has_canonical_type_def canonical_types_def)

lemma length_filter_product:
  "length (filter (\<lambda>s. P (fst s) (snd s)) (List.product xs ys)) =
   sum_list (map (\<lambda>x. length (filter (P x) ys)) xs)"
  by (induction xs) (simp_all add: filter_map o_def)

lemma filled_slots:
  "sum_list (map (\<lambda>nd. length (filter (filled (snd nd)) fs)) nds)
     = length (filter non_empty_slot (List.product nds fs))"
proof -
  have "filter non_empty_slot (List.product nds fs)
        = filter (\<lambda>s. filled (snd (fst s)) (snd s)) (List.product nds fs)"
    by (rule filter_cong) (auto simp: filled_iff)
  then show ?thesis
    by (simp only: length_filter_product [where P = "\<lambda>nd. filled (snd nd)"])
qed

lemma completeness_spec: "calculate_completeness_score g = spec_completeness g"
proof (cases "g_nodes g = []")
  case True
  then show ?thesis
    by (simp add: calculate_completeness_score_def spec_completeness_def int_truediv_def binary64_zero)
next
  case False
  let ?fs = "[''type'', ''label'', ''year'', ''country'', ''manufacturer'', ''owner'']"
  have q: "quality_fields = ?fs"
    by (simp add: quality_fields_def)
  have ne: "List.product (g_nodes g) ?fs \<noteq> []"
    using False by (cases "g_nodes g") simp_all
  have "1 \<le> length (g_nodes g) * length ?fs"
    using False by (cases "g_nodes g") simp_all
  then have m: "max 1 (length (g_nodes g) * length ?fs) = length (List.product (g_nodes g) ?fs)"
    by (simp only: max_def length_product if_True)
  have "calculate_completeness_score g =
          int_truediv (sum_list (map (\<lambda>nd. length (filter (filled (snd nd)) ?fs)) (g_nodes g)))
            (max 1 (length (g_nodes g) * length ?fs))"
    by (simp only: calculate_completeness_score_def Let_def q)
  also have "\<dots> = int_truediv (length (filter non_empty_slot (List.product (g_nodes g) ?fs)))
                    (length (List.product (g_nodes g) ?fs))"
    by (simp only: filled_slots m)
  also have "\<dots> = spec_completeness g"
    by (simp only: spec_completeness_def Let_def ne if_False)
  finally show ?thesis .
qed

lemma consistency_spec: "calculate_consistency_score g = spec_consistency g"
proof (cases "g_nodes g = []")
  case True
  then show ?thesis
    by (simp add: calculate_consistency_score_def spec_consistency_def int_truediv_def binary64_zero)
next
  case False
  then have "max 1 (length (g_nodes g)) = length (g_nodes g)"
    by (cases "g_nodes g") simp_all
  moreover have "filter (\<lambda>nd. consistent (snd nd)) (g_nodes g) = filter has_canonical_type (g_nodes g)"
    by (rule filter_cong) (auto simp: consistent_iff)
  ultimately show ?thesis
    using False by (simp add: calculate_consistency_score_def spec_consistency_def Let_def)
qed

lemma completeness_nonneg: "0 \<le> calculate_completeness_score g"
  by (simp add: calculate_completeness_score_def Let_def int_truediv_nonneg)

lemma consistency_nonneg: "0 \<le> calculate_consistency_score g"
  by (simp add: calculate_consistency_score_def Let_def int_truediv_nonneg)

text \<open>
  C4. For every graph the data-quality score is the weighted sum
  0.3 * (edges / max(1, nodes)) + 0.5 * completeness + 0.2 * consistency, computed in
  floating point and capped at 1.0, with completeness the share of non-empty slots among
  the six attribute slots of all nodes and consistency the share of nodes of a canonical
  type; it lies between 0.0 and 1.0 and is 0.0 for the graph without nodes.
\<close>

theorem quality_score_formula_and_bounds:
  assumes wf: "wf_graph g"
  shows "calculate_data_quality_score g = spec_quality_score g
   \<and> 0 \<le> calculate_data_quality_score g \<and> calculate_data_quality_score g \<le> 1
   \<and> (g_nodes g = [] \<longrightarrow> calculate_data_quality_score g = 0)"
proof -
  have eq: "calculate_data_quality_score g = spec_quality_score g"
  proof (cases "g_nodes g = []")
    case True
    then have "spec_quality_score g = 0"
      using wf_no_nodes [OF wf True]
      by (simp add: spec_quality_score_def spec_completeness_def spec_consistency_def
          int_truediv_def fmul_def fadd_def binary64_zero)
    with True show ?thesis
      by (simp add: calculate_data_quality_score_def)
  next
    case False
    then show ?thesis
      by (simp add: calculate_data_quality_score_def spec_quality_score_def Let_def
          completeness_spec consistency_spec fmul_commute)
  qed
  have nonneg: "0 \<le> calculate_data_quality_score g"
    using completeness_nonneg [of g] consistency_nonneg [of g] weights_nonneg
    by (simp add: calculate_data_quality_score_def Let_def fadd_nonneg fmul_nonneg
        int_truediv_nonneg)
  have le: "calculate_data_quality_score g \<le> 1"
    by (simp add: calculate_data_quality_score_def Let_def)
  have emp: "g_nodes g = [] \<longrightarrow> calculate_data_quality_score g = 0"
    by (simp add: calculate_data_quality_score_def)
  from eq nonneg le emp show ?thesis by blast
qed

text \<open>
  On the sample graph the score is the float nearest to 5/12 that the three roundings
  of the code reach, printed by Python as 0.41666666666666663.
\<close>

lemma empty_graph_wf: "wf_graph empty_graph"
  by (simp add: wf_graph_def empty_graph_def node_ids_def)

lemma sample_spec_score: "spec_quality_score sample_graph = 3752999689475413 / 9007199254740992"
  by code_simp

theorem quality_score_witness:
  "wf_graph sample_graph
   \<and> calculate_data_quality_score sample_graph = 3752999689475413 / 9007199254740992
   \<and> wf_graph empty_graph
   \<and> calculate_data_quality_score empty_graph = 0"
proof -
  have "g_nodes empty_graph = []"
    by (simp add: empty_graph_def)
  with quality_score_formula_and_bounds [OF empty_graph_wf]
  have "calculate_data_quality_score empty_graph = 0"
    by simp
  moreover from quality_score_formula_and_bounds [OF wf_sample]
  have "calculate_data_quality_score sample_graph = 3752999689475413 / 9007199254740992"
    by (simp only: sample_spec_score)
  ultimately show ?thesis
    using wf_sample empty_graph_wf by simp
qed

section \<open>Applying filters\<close>

lemma ebind_Inr_iff: "(ebind m f = Inr y) = (\<exists>x. m = Inr x \<and> f x = Inr y)"
  by (cases m) (simp_all add: ebind_def)

lemma narrow_step:
  "narrow g (f # fs) V =
     (case matched g f of
        None \<Rightarrow> narrow g fs V
      | Some (Inl e) \<Rightarrow> Inl e
      | Some (Inr S) \<Rightarrow> narrow g fs (V \<inter> S))"
  by (simp add: matched_def ebind_def split: option.splits sum.splits)

lemma narrow_result:
  "narrow g fs V = Inr R \<Longrightarrow>
     R = V \<inter> \<Inter>{S. \<exists>f \<in> set fs. matched g f = Some (Inr S)}"
proof (induction fs arbitrary: V)
  case Nil
  then show ?case by simp
next
  case (Cons f fs)
  show ?case
  proof (cases "matched g f")
    case None
    with Cons.prems have "narrow g fs V = Inr R" by (simp add: narrow_step del: narrow.simps)
    from Cons.IH [OF this] None show ?thesis by auto
  next
    case (Some m)
    show ?thesis
    proof (cases m)
      case (Inl e)
      with Some Cons.prems show ?thesis by (simp add: narrow_step del: narrow.simps)
    next
      case (Inr S)
      with Some Cons.prems have "narrow g fs (V \<inter> S) = Inr R" by (simp add: narrow_step del: narrow.simps)
      from Cons.IH [OF this] Some Inr show ?thesis by auto
    qed
  qed
qed

lemma narrow_succeeds_iff:
  "(\<exists>R. narrow g fs V = Inr R) = (\<forall>f \<in> set fs. \<forall>e. matched g f \<noteq> Some (Inl e))"
proof (induction fs arbitrary: V)
  case Nil
  then show ?case by simp
next
  case (Cons f fs)
  show ?case
  proof (cases "matched g f")
    case None
    then show ?thesis using Cons.IH [of V] by (simp add: narrow_step del: narrow.simps)
  next
    case (Some m)
    then show ?thesis using Cons.IH by (cases m) (simp_all add: narrow_step del: narrow.simps)
  qed
qed

lemma node_ids_subgraph: "set (node_ids (subgraph g S)) = S \<inter> set (node_ids g)"
  by (auto simp: node_ids_def subgraph_def)

lemma subgraph_all_nodes: "g_nodes (subgraph g (set (node_ids g))) = g_nodes g"
  by (simp add: subgraph_def node_ids_def)

lemma subgraph_all_wf: "wf_graph g \<Longrightarrow> subgraph g (set (node_ids g)) = g"
proof -
  assume wf: "wf_graph g"
  then have "filter (\<lambda>e. fst (fst e) \<in> set (node_ids g) \<and> snd (fst e) \<in> set (node_ids g)) (g_edges g)
             = g_edges g"
    by (simp add: wf_graph_def)
  then show ?thesis
    by (simp add: subgraph_def node_ids_def)
qed

lemma apply_filters_nodes:
  assumes "apply_filters g fs = Inr r"
  shows "set (node_ids r) = set (node_ids g) \<inter> \<Inter>{S. \<exists>f \<in> set fs. matched g f = Some (Inr S)}"
proof (cases "fs = []")
  case True
  with assms show ?thesis by (simp add: apply_filters_def)
next
  case False
  with assms obtain V where V: "narrow g fs (set (node_ids g)) = Inr V" and r: "r = subgraph g V"
    by (auto simp: apply_filters_def ebind_Inr_iff)
  from narrow_result [OF V] r show ?thesis
    by (simp add: node_ids_subgraph) blast
qed

lemma apply_filters_succeeds_iff:
  "(\<exists>r. apply_filters g fs = Inr r) = (\<forall>f \<in> set fs. \<forall>e. matched g f \<noteq> Some (Inl e))"
proof (cases "fs = []")
  case True
  then show ?thesis by (simp add: apply_filters_def)
next
  case False
  have "(\<exists>r. apply_filters g fs = Inr r) = (\<exists>R. narrow g fs (set (node_ids g)) = Inr R)"
    using False by (auto simp: apply_filters_def ebind_Inr_iff)
  then show ?thesis by (simp add: narrow_succeeds_iff)
qed

text \<open>
  C2. Filters combine by conjunction: a map of two filters succeeds exactly when each
  filter alone does, and its node set is then the intersection of the two single
  results; in general the node set of a result is the graph's node set intersected
  with the matched set of every recognised filter of the map.
\<close>

theorem and_semantics:
  "((\<exists>r. apply_filters g [f1, f2] = Inr r) =
      ((\<exists>r1. apply_filters g [f1] = Inr r1) \<and> (\<exists>r2. apply_filters g [f2] = Inr r2)))
   \<and> (\<forall>r r1 r2. apply_filters g [f1, f2] = Inr r \<longrightarrow> apply_filters g [f1] = Inr r1 \<longrightarrow>
         apply_filters g [f2] = Inr r2 \<longrightarrow>
         set (node_ids r) = set (node_ids r1) \<inter> set (node_ids r2))
   \<and> (\<forall>r. apply_filters g fs = Inr r \<longrightarrow>
         set (node_ids r) =
           set (node_ids g) \<inter> \<Inter>{S. \<exists>f \<in> set fs. matched g f = Some (Inr S)})"
proof (intro conjI allI impI)
  show "(\<exists>r. apply_filters g [f1, f2] = Inr r) =
      ((\<exists>r1. apply_filters g [f1] = Inr r1) \<and> (\<exists>r2. apply_filters g [f2] = Inr r2))"
    by (simp only: apply_filters_succeeds_iff) auto
next
  fix r r1 r2
  assume a: "apply_filters g [f1, f2] = Inr r" and b: "apply_filters g [f1] = Inr r1"
    and c: "apply_filters g [f2] = Inr r2"
  from apply_filters_nodes [OF a] apply_filters_nodes [OF b] apply_filters_nodes [OF c]
  show "set (node_ids r) = set (node_ids r1) \<inter> set (node_ids r2)"
    by auto
next
  fix r
  assume "apply_filters g fs = Inr r"
  then show "set (node_ids r) =
           set (node_ids g) \<inter> \<Inter>{S. \<exists>f \<in> set fs. matched g f = Some (Inr S)}"
    by (rule apply_filters_nodes)
qed

text \<open>
  C7. A filter map whose only key is no recognised filter name returns all nodes of the
  graph: the unknown name contributes no restriction.
\<close>

theorem unknown_filter_is_noop:
  assumes "fst f \<notin> set (map fst available_filters)"
  shows "\<exists>r. apply_filters g [f] = Inr r \<and> g_nodes r = g_nodes g \<and> (wf_graph g \<longrightarrow> r = g)"
proof -
  from assms have "map_of available_filters (fst f) = None"
    by (simp add: map_of_eq_None_iff)
  then have "apply_filters g [f] = Inr (subgraph g (set (node_ids g)))"
    by (simp add: apply_filters_def ebind_def)
  then show ?thesis
    by (simp add: subgraph_all_nodes subgraph_all_wf)
qed

subsection \<open>Filtering a graph object\<close>

lemma narrow_in_value: "narrow_in graph fs V st = (narrow (st ! graph) fs V, st)"
proof (induction fs arbitrary: V)
  case Nil
  show ?case by simp
next
  case (Cons f fs)
  show ?case
  proof (cases "map_of available_filters (fst f)")
    case None
    then show ?thesis by (simp add: Cons.IH)
  next
    case (Some filter_func)
    then show ?thesis
      by (cases "filter_func (st ! graph) (snd f)") (simp_all add: call_filter_def ebind_def Cons.IH)
  qed
qed

lemma apply_filters_in_value:
  "apply_filters_in graph fs st =
     (case apply_filters (st ! graph) fs of
        Inl e \<Rightarrow> (Inl e, st)
      | Inr g' \<Rightarrow> (Inr (length st), st @ [g']))"
proof (cases "fs = []")
  case True
  then show ?thesis
    by (simp add: apply_filters_in_def apply_filters_def nx_copy_def)
next
  case False
  then show ?thesis
    by (cases "narrow (st ! graph) fs (set (node_ids (st ! graph)))")
       (simp_all add: apply_filters_in_def apply_filters_def narrow_in_value nx_subgraph_copy_def
          ebind_def)
qed

lemma apply_filters_subgraph:
  assumes "apply_filters g fs = Inr r" and "wf_graph g"
  shows "r = subgraph g (surviving_nodes g fs)"
proof (cases "fs = []")
  case True
  with assms have "r = g" by (simp add: apply_filters_def)
  moreover from True have "surviving_nodes g fs = set (node_ids g)"
    by (simp add: surviving_nodes_def)
  ultimately show ?thesis
    using subgraph_all_wf [OF assms(2)] by simp
next
  case False
  with assms obtain V where V: "narrow g fs (set (node_ids g)) = Inr V" and r: "r = subgraph g V"
    by (auto simp: apply_filters_def ebind_Inr_iff)
  from narrow_result [OF V] have "V = surviving_nodes g fs"
    by (simp add: surviving_nodes_def)
  with r show ?thesis by simp
qed

lemma apply_filters_raises_iff:
  "(\<exists>e. apply_filters g fs = Inl e) = (\<exists>f \<in> set fs. \<exists>e. matched g f = Some (Inl e))"
proof -
  have "(\<exists>e. apply_filters g fs = Inl e) = (\<not> (\<exists>r. apply_filters g fs = Inr r))"
    by (cases "apply_filters g fs") simp_all
  then show ?thesis
    by (simp add: apply_filters_succeeds_iff)
qed

lemma undirected_edges_subgraph:
  "undirected_edges (subgraph g V) = {e \<in> undirected_edges g. fst e \<subseteq> V}"
  by (auto simp: undirected_edges_def subgraph_def upair_def)

text \<open>
  C9. Applying filters to a graph object writes to no live graph, the given one
  included, whether the call returns or raises; a call that returns has allocated one
  new object, the induced subgraph over the surviving node set: its nodes are the
  surviving nodes with their attributes and its edges are exactly the edges of the given
  graph whose both ends survive. The call raises exactly when one of its filters does.
\<close>

theorem apply_filters_frame:
  assumes ref: "graph < length st" and wf: "wf_graph (st ! graph)"
  shows "\<exists>out st'. apply_filters_in graph fs st = (out, st')
     \<and> take (length st) st' = st
     \<and> ((\<exists>e. out = Inl e) = (\<exists>f \<in> set fs. \<exists>e. matched (st ! graph) f = Some (Inl e)))
     \<and> (case out of
          Inl e \<Rightarrow> st' = st
        | Inr r \<Rightarrow>
            r = length st \<and> length st' = Suc (length st)
            \<and> set (g_nodes (st' ! r)) =
                {nd \<in> set (g_nodes (st ! graph)). fst nd \<in> surviving_nodes (st ! graph) fs}
            \<and> undirected_edges (st' ! r) =
                {e \<in> undirected_edges (st ! graph). fst e \<subseteq> surviving_nodes (st ! graph) fs})"
proof (cases "apply_filters (st ! graph) fs")
  case (Inl e)
  then have run: "apply_filters_in graph fs st = (Inl e, st)"
    by (simp add: apply_filters_in_value)
  from Inl have "\<exists>f \<in> set fs. \<exists>e. matched (st ! graph) f = Some (Inl e)"
    using apply_filters_raises_iff [of "st ! graph" fs] by blast
  with run show ?thesis by simp
next
  case (Inr g')
  then have run: "apply_filters_in graph fs st = (Inr (length st), st @ [g'])"
    by (simp add: apply_filters_in_value)
  from Inr have no: "\<not> (\<exists>f \<in> set fs. \<exists>e. matched (st ! graph) f = Some (Inl e))"
    using apply_filters_raises_iff [of "st ! graph" fs] by simp
  have g': "g' = subgraph (st ! graph) (surviving_nodes (st ! graph) fs)"
    by (rule apply_filters_subgraph [OF Inr wf])
  have nodes: "set (g_nodes g') =
      {nd \<in> set (g_nodes (st ! graph)). fst nd \<in> surviving_nodes (st ! graph) fs}"
    by (simp add: g' subgraph_def)
  have edges: "undirected_edges g' =
      {e \<in> undirected_edges (st ! graph). fst e \<subseteq> surviving_nodes (st ! graph) fs}"
    by (simp only: g' undirected_edges_subgraph)
  from run no nodes edges show ?thesis by simp
qed

subsection \<open>Instances on a sample graph\<close>

lemmas filter_eval =
  apply_filters_def available_filters_def ebind_def node_ids_def subgraph_def sample_graph_def
  filter_by_type_def filter_by_min_degree_def caught_def degree_def get_or_def

lemma e1: "apply_filters sample_graph [(''type'', PStr ''vehicle'')] = Inr (subgraph sample_graph {''a''})"
  by (simp add: filter_eval)

lemma e2: "apply_filters sample_graph [(''degree_min'', PInt 1)] = Inr sample_graph"
  by (simp add: filter_eval)

theorem and_semantics_witness:
  "\<exists>r r1 r2. apply_filters sample_graph [(''type'', PStr ''vehicle''), (''degree_min'', PInt 1)] = Inr r
     \<and> apply_filters sample_graph [(''type'', PStr ''vehicle'')] = Inr r1
     \<and> apply_filters sample_graph [(''degree_min'', PInt 1)] = Inr r2
     \<and> set (node_ids r) = set (node_ids r1) \<inter> set (node_ids r2)
     \<and> set (node_ids r) = {''a''}"
proof -
  let ?f1 = "(''type'', PStr ''vehicle'')" and ?f2 = "(''degree_min'', PInt 1)"
  note sem = and_semantics [of sample_graph ?f1 ?f2 "[]"]
  from sem e1 e2 obtain r where r: "apply_filters sample_graph [?f1, ?f2] = Inr r"
    by blast
  with sem e1 e2 have "set (node_ids r) = set (node_ids (subgraph sample_graph {''a''})) \<inter> set (node_ids sample_graph)"
    by blast
  then have "set (node_ids r) = {''a''}"
    by (simp add: node_ids_def subgraph_def sample_graph_def)
  with r e1 e2 show ?thesis
    by (auto simp: node_ids_def subgraph_def sample_graph_def)
qed

theorem unknown_filter_witness:
  "\<exists>r. apply_filters sample_graph [(''bogus'', PInt 1)] = Inr r \<and> r = sample_graph"
  using unknown_filter_is_noop [of "(''bogus'', PInt 1)" sample_graph] wf_sample
  by (simp add: available_filters_def)

lemma type_vehicle_matched:
  "matched sample_graph (''type'', PStr ''vehicle'') = Some (Inr {''a''})"
  by (simp add: matched_def available_filters_def filter_by_type_def sample_graph_def ebind_def
      get_or_def)

lemma sample_surviving:
  "surviving_nodes sample_graph [(''type'', PStr ''vehicle'')] = {''a''}"
proof -
  have "{S. \<exists>f \<in> set [(''type'', PStr ''vehicle'')]. matched sample_graph f = Some (Inr S)}
          = {{''a''}}"
    by (auto simp: type_vehicle_matched)
  then show ?thesis
    by (simp add: surviving_nodes_def node_ids_def sample_graph_def)
qed

theorem apply_filters_frame_witness:
  "0 < length [sample_graph] \<and> wf_graph ([sample_graph] ! 0)
   \<and> apply_filters_in 0 [(''type'', PStr ''vehicle'')] [sample_graph]
       = (Inr 1, [sample_graph, subgraph sample_graph {''a''}])
   \<and> set (g_nodes ([sample_graph, subgraph sample_graph {''a''}] ! 1))
       = {(''a'', [(''type'', PStr ''vehicle''), (''label'', PStr ''A''), (''year'', PInt 1990)])}
   \<and> undirected_edges ([sample_graph, subgraph sample_graph {''a''}] ! 1) = {}"
proof -
  have ref: "0 < length [sample_graph]" by simp
  have wf: "wf_graph ([sample_graph] ! 0)" by (simp add: wf_sample)
  have run: "apply_filters_in 0 [(''type'', PStr ''vehicle'')] [sample_graph]
       = (Inr 1, [sample_graph, subgraph sample_graph {''a''}])"
    by (simp add: apply_filters_in_value e1)
  from apply_filters_frame [OF ref wf, of "[(''type'', PStr ''vehicle'')]"] run
  have "set (g_nodes ([sample_graph, subgraph sample_graph {''a''}] ! 1)) =
          {nd \<in> set (g_nodes sample_graph). fst nd \<in> {''a''}}
        \<and> undirected_edges ([sample_graph, subgraph sample_graph {''a''}] ! 1) =
          {e \<in> undirected_edges sample_graph. fst e \<subseteq> {''a''}}"
    by (simp add: sample_surviving)
  moreover have "{nd \<in> set (g_nodes sample_graph). fst nd \<in> {''a''}}
      = {(''a'', [(''type'', PStr ''vehicle''), (''label'', PStr ''A''), (''year'', PInt 1990)])}"
    by (auto simp: sample_graph_def)
  moreover have "{e \<in> undirected_edges sample_graph. fst e \<subseteq> {''a''}} = {}"
    by (auto simp: undirected_edges_def sample_graph_def upair_def)
  ultimately show ?thesis
    using ref wf run by simp
qed

section \<open>Malformed filter arguments\<close>

lemma py_int_errors: "py_int v = Inl e \<Longrightarrow> caught e"
  by (cases v) (auto simp: caught_def split: option.splits)

lemma integer_arguments_fail_closed:
  assumes "py_int v = Inl e"
  shows "filter_by_year g v = Inr {} \<and> filter_by_min_degree g v = Inr {}
         \<and> filter_by_max_degree g v = Inr {}"
  using assms py_int_errors [OF assms]
  by (simp add: filter_by_year_def filter_by_min_degree_def filter_by_max_degree_def)

lemma string_year_range_fails_closed:
  assumes "parse_year_range (PStr s) = Inl e"
  shows "filter_by_year_range g (PStr s) = Inr {}"
proof -
  from assms have "e = ValueError"
    by (auto simp: parse_year_range_def split: list.splits option.splits)
  with assms show ?thesis
    by (simp add: filter_by_year_range_def caught_def)
qed

text \<open>
  C8. A filter argument that cannot be parsed gives the empty node set and no exception.
  The two lemmas above are the cases where the code does so. For \<^verbatim>\<open>year_range\<close> it
  does not hold: an argument that is no string has no \<^verbatim>\<open>split\<close> method, and the
  \<^verbatim>\<open>AttributeError\<close> is not among the exceptions the filter catches, so it reaches the
  caller of \<^verbatim>\<open>apply_filters\<close>.
\<close>

theorem year_range_non_string_raises:
  "filter_by_year_range g (PInt 1990) = Inl AttributeError
   \<and> apply_filters g [(''year_range'', PInt 1990)] = Inl AttributeError"
  by (simp add: filter_by_year_range_def parse_year_range_def caught_def apply_filters_def
      available_filters_def ebind_def)

theorem year_range_non_string_raises_witness:
  "apply_filters sample_graph [(''year_range'', PInt 1990)] = Inl AttributeError"
  using year_range_non_string_raises [of sample_graph] by simp

section \<open>Logical composition\<close>

lemma type_tank: "filter_by_type sample_graph (PStr ''tank'') = Inr {}"
  by (simp add: filter_by_type_def sample_graph_def ebind_def get_or_def)

lemma degree_zero: "filter_by_min_degree sample_graph (PInt 0) = Inr {''a'', ''b''}"
  by (simp add: filter_by_min_degree_def sample_graph_def ebind_def)

lemma lookup_type: "map_of available_filters ''type'' = Some filter_by_type"
  by (simp add: available_filters_def)

lemma lookup_degree_min: "map_of available_filters ''degree_min'' = Some filter_by_min_degree"
  by (simp add: available_filters_def)

text \<open>
  C3. The advanced filter is to evaluate the inner filter map of a condition as
  \<^verbatim>\<open>apply_filters\<close> does, by intersection. It does not: the inner loop takes an empty
  intermediate result for "no filter applied yet" and replaces it by the next filter's
  matches. On the sample graph the inner map matches no node under \<^verbatim>\<open>apply_filters\<close>
  and both nodes under the advanced filter.
\<close>

theorem logical_filter_resets_empty_intersection:
  "apply_filters sample_graph inner_filters = Inr (subgraph sample_graph {})
   \<and> condition_nodes sample_graph inner_filters {} = Inr {''a'', ''b''}
   \<and> create_advanced_filter sample_graph advanced_config
       = Inr (subgraph sample_graph {''a'', ''b''})"
proof -
  have a: "apply_filters sample_graph inner_filters = Inr (subgraph sample_graph {})"
    by (simp add: apply_filters_def inner_filters_def lookup_type lookup_degree_min type_tank
        degree_zero ebind_def)
  have b: "condition_nodes sample_graph inner_filters {} = Inr {''a'', ''b''}"
    by (simp add: inner_filters_def lookup_type lookup_degree_min type_tank degree_zero ebind_def)
  have c: "create_advanced_filter sample_graph advanced_config
       = Inr (subgraph sample_graph {''a'', ''b''})"
    by (simp add: create_advanced_filter_def advanced_config_def apply_logical_filter_def
        get_or_def condition_set_def b ebind_def combine_and_def)
  from a b c show ?thesis by simp
qed

section \<open>Built graphs\<close>

subsection \<open>The node pass\<close>

lemma update_member: "x \<in> set (AList.update k v al) \<Longrightarrow> x = (k, v) \<or> x \<in> set al"
  by (induction al) (auto split: if_splits)

lemma dict_update_Cons:
  "dict_update d (kv # new) = dict_update (AList.update (fst kv) (snd kv) d) new"
  by (simp add: dict_update_def dict_set_def)

lemma dict_update_miss:
  "k \<notin> fst ` set new \<Longrightarrow> map_of (dict_update d new) k = map_of d k"
proof (induction new arbitrary: d)
  case Nil
  then show ?case by (simp add: dict_update_def)
next
  case (Cons kv new)
  then show ?case by (simp add: dict_update_Cons update_conv')
qed

lemma dict_update_hit:
  "map_of new k = Some v \<Longrightarrow> distinct (map fst new) \<Longrightarrow> map_of (dict_update d new) k = Some v"
proof (induction new arbitrary: d)
  case Nil
  then show ?case by simp
next
  case (Cons kv new)
  show ?case
  proof (cases "fst kv = k")
    case True
    with Cons.prems have v: "snd kv = v" and out: "k \<notin> fst ` set new" by auto
    from dict_update_miss [OF out] True v show ?thesis
      by (simp add: dict_update_Cons update_conv')
  next
    case False
    with Cons.prems have "map_of new k = Some v" "distinct (map fst new)" by auto
    from Cons.IH [OF this] show ?thesis by (simp add: dict_update_Cons)
  qed
qed

lemma distinct_dict_update:
  "distinct (map fst d) \<Longrightarrow> distinct (map fst (dict_update d new))"
proof (induction new arbitrary: d)
  case Nil
  then show ?case by (simp add: dict_update_def)
next
  case (Cons kv new)
  then show ?case by (simp add: dict_update_Cons distinct_update)
qed

lemma copy_field_no_type: "k' \<noteq> ''type'' \<Longrightarrow> ''type'' \<notin> fst ` set (copy_field e k k')"
  by (auto simp: copy_field_def split: option.splits)

lemma searchable_no_type: "''type'' \<notin> fst ` set (extract_searchable_attributes e t)"
proof -
  have tail: "''type'' \<notin> fst ` set (if c then copy_field e a a' @ copy_field e b b' else rest)"
    if "a' \<noteq> ''type''" "b' \<noteq> ''type''" "''type'' \<notin> fst ` set rest" for c a a' b b' rest
    using that by (simp add: image_Un copy_field_no_type)
  show ?thesis
    unfolding extract_searchable_attributes_def set_append image_Un Un_iff de_Morgan_disj
    by (intro conjI copy_field_no_type tail) simp_all
qed

lemma nx_add_node_edges [simp]: "g_edges (nx_add_node g n attrs) = g_edges g"
  by (simp add: nx_add_node_def split: option.splits)

lemma nx_add_node_ids:
  "set (node_ids (nx_add_node g n attrs)) = insert n (set (node_ids g))"
proof (cases "map_of (g_nodes g) n")
  case None
  then show ?thesis by (simp add: nx_add_node_def node_ids_def)
next
  case (Some old)
  then have "(n, old) \<in> set (g_nodes g)" by (rule map_of_SomeD)
  then have "n \<in> fst ` set (g_nodes g)" by force
  with Some show ?thesis
    using dom_update [of n "dict_update old attrs" "g_nodes g"]
    by (auto simp: nx_add_node_def node_ids_def)
qed

lemma nx_add_node_member:
  assumes "nd \<in> set (g_nodes (nx_add_node g n attrs))"
  shows "nd \<in> set (g_nodes g) \<or> nd = (n, attrs) \<or> (\<exists>old. nd = (n, dict_update old attrs))"
  using assms by (auto simp: nx_add_node_def split: option.splits dest: update_member)

lemma add_node_attrs:
  assumes "add_node rp g n e t md = Inr g'"
  obtains attrs where "g' = nx_add_node g n attrs"
    and "map_of attrs ''type'' = Some (PStr t)" and "distinct (map fst attrs)"
proof -
  from assms obtain label where g': "g' = nx_add_node g n
      (dict_update ([(''type'', PStr t), (''label'', label),
              (''color'', PStr (case map_of node_colors t of None \<Rightarrow> ''#808080'' | Some c \<Rightarrow> c))] @
             (if md then [(''data'', PDict e)] else [])) (extract_searchable_attributes e t))"
    by (cases "extract_primary_name rp e") (auto simp: add_node_def ebind_def Let_def)
  let ?base = "[(''type'', PStr t), (''label'', label),
              (''color'', PStr (case map_of node_colors t of None \<Rightarrow> ''#808080'' | Some c \<Rightarrow> c))] @
             (if md then [(''data'', PDict e)] else [])"
  have 1: "map_of (dict_update ?base (extract_searchable_attributes e t)) ''type'' = Some (PStr t)"
    using dict_update_miss [OF searchable_no_type, of ?base e t] by simp
  have 2: "distinct (map fst (dict_update ?base (extract_searchable_attributes e t)))"
    by (rule distinct_dict_update) simp
  from that [OF g' 1 2] show ?thesis .
qed

lemma add_node_result:
  assumes "add_node rp g n e t md = Inr g'"
  shows "g_edges g' = g_edges g"
    and "set (node_ids g') = insert n (set (node_ids g))"
    and "\<And>nd. nd \<in> set (g_nodes g') \<Longrightarrow>
           nd \<in> set (g_nodes g) \<or> (fst nd = n \<and> map_of (snd nd) ''type'' = Some (PStr t))"
proof -
  from assms obtain attrs where g': "g' = nx_add_node g n attrs"
    and ty: "map_of attrs ''type'' = Some (PStr t)" and di: "distinct (map fst attrs)"
    by (rule add_node_attrs)
  show "g_edges g' = g_edges g" by (simp add: g')
  show "set (node_ids g') = insert n (set (node_ids g))" by (simp add: g' nx_add_node_ids)
  fix nd assume "nd \<in> set (g_nodes g')"
  then consider "nd \<in> set (g_nodes g)" | "nd = (n, attrs)" | old where "nd = (n, dict_update old attrs)"
    using nx_add_node_member g' by blast
  then show "nd \<in> set (g_nodes g) \<or> (fst nd = n \<and> map_of (snd nd) ''type'' = Some (PStr t))"
  proof cases
    case 1 then show ?thesis by simp
  next
    case 2 then show ?thesis by (simp add: ty)
  next
    case 3 then show ?thesis by (simp add: dict_update_hit [OF ty di])
  qed
qed

lemma add_entities_inv:
  assumes "t \<in> set entity_types" and "map_of db t = Some all" and "set es \<subseteq> set all"
    and "node_pass_inv db st" and "add_entities rp md t es st = Inr st'"
  shows "node_pass_inv db st'"
  using assms(3-)
proof (induction es arbitrary: st)
  case Nil
  then show ?case by simp
next
  case (Cons e es)
  from Cons.prems have sub: "set es \<subseteq> set all" and e: "e \<in> set all" by auto
  show ?case
  proof (cases "ent_id e")
    case None
    with Cons.prems have "add_entities rp md t es st = Inr st'" by simp
    from Cons.IH [OF sub Cons.prems(2) this] show ?thesis .
  next
    case (Some n)
    show ?thesis
    proof (cases "n = []")
      case True
      with Some Cons.prems have "add_entities rp md t es st = Inr st'" by simp
      from Cons.IH [OF sub Cons.prems(2) this] show ?thesis .
    next
      case False
      with Some Cons.prems obtain g' where
        g': "add_node rp (fst st) n (entity_dict e) t md = Inr g'"
        and rest: "add_entities rp md t es (g', AList.update n (t, entity_dict e) (snd st)) = Inr st'"
        by (cases "add_node rp (fst st) n (entity_dict e) t md") (auto simp: ebind_def)
      note r = add_node_result [OF g']
      have new: "from_collection db (n, a)" if "map_of a ''type'' = Some (PStr t)" for a
        using that assms(1,2) e Some by (auto simp: from_collection_def)
      have "node_pass_inv db (g', AList.update n (t, entity_dict e) (snd st))"
        unfolding node_pass_inv_def
      proof (intro conjI ballI)
        fix nd assume "nd \<in> set (g_nodes (fst (g', AList.update n (t, entity_dict e) (snd st))))"
        then have "nd \<in> set (g_nodes g')" by simp
        from r(3) [OF this] show "from_collection db nd"
          using Cons.prems(2) new [of "snd nd"] by (cases nd) (auto simp: node_pass_inv_def)
      next
        show "fst ` set (snd (g', AList.update n (t, entity_dict e) (snd st)))
              \<subseteq> set (node_ids (fst (g', AList.update n (t, entity_dict e) (snd st))))"
          using Cons.prems(2) r(2) by (auto simp: node_pass_inv_def dom_update)
      next
        show "g_edges (fst (g', AList.update n (t, entity_dict e) (snd st))) = []"
          using Cons.prems(2) r(1) by (simp add: node_pass_inv_def)
      qed
      from Cons.IH [OF sub this rest] show ?thesis .
    qed
  qed
qed

lemma add_collections_inv:
  assumes "set ts \<subseteq> set entity_types" and "node_pass_inv db st"
    and "add_collections rp md db ts st = Inr st'"
  shows "node_pass_inv db st'"
  using assms
proof (induction ts arbitrary: st)
  case Nil
  then show ?case by simp
next
  case (Cons t ts)
  from Cons.prems have ts: "set ts \<subseteq> set entity_types" and t: "t \<in> set entity_types" by auto
  show ?case
  proof (cases "map_of db t")
    case None
    with Cons.prems have "add_collections rp md db ts st = Inr st'" by simp
    from Cons.IH [OF ts Cons.prems(2) this] show ?thesis .
  next
    case (Some es)
    with Cons.prems obtain st1 where 1: "add_entities rp md t es st = Inr st1"
      and 2: "add_collections rp md db ts st1 = Inr st'"
      by (cases "add_entities rp md t es st") (auto simp: ebind_def)
    from add_entities_inv [OF t Some subset_refl Cons.prems(2) 1]
    have "node_pass_inv db st1" .
    from Cons.IH [OF ts this 2] show ?thesis .
  qed
qed

subsection \<open>The relationship pass\<close>

lemma ebind_Inr: "(ebind m f = Inr y) = (\<exists>x. m = Inr x \<and> f x = Inr y)"
  by (cases m) (simp_all add: ebind_def)

lemma add_reference_edges_calls:
  "add_reference_edges em n g refs =
     foldl apply_call g
       (map (\<lambda>r. (n, snd r, fst r)) (filter (\<lambda>r. snd r \<in> set (map fst em)) refs))"
  unfolding add_reference_edges_def
  by (induction refs arbitrary: g) (simp_all add: apply_call_def)

lemma relationships_as_calls:
  "add_relationships_loop rp em items g = Inr g' \<Longrightarrow>
     \<exists>calls. edge_calls rp em items = Inr calls \<and> g' = foldl apply_call g calls"
proof (induction items arbitrary: g)
  case Nil
  then show ?case by simp
next
  case (Cons item items)
  from Cons.prems obtain hrefs where
    h: "extract_hierarchical_references rp (snd (snd item)) = Inr hrefs"
    and rest: "add_relationships_loop rp em items
         (add_reference_edges em (fst item)
            (add_reference_edges em (fst item)
               (add_reference_edges em (fst item) g
                  (extract_direct_references rp (snd (snd item))))
               (flatten_refs (extract_list_references rp (snd (snd item)))))
            (flatten_refs hrefs)) = Inr g'"
    by (auto simp: Let_def ebind_Inr)
  from Cons.IH [OF rest] obtain calls where
    c: "edge_calls rp em items = Inr calls"
    and g': "g' = foldl apply_call
         (add_reference_edges em (fst item)
            (add_reference_edges em (fst item)
               (add_reference_edges em (fst item) g
                  (extract_direct_references rp (snd (snd item))))
               (flatten_refs (extract_list_references rp (snd (snd item)))))
            (flatten_refs hrefs)) calls"
    by blast
  have refs: "entity_references rp (snd (snd item)) =
      Inr (extract_direct_references rp (snd (snd item))
           @ flatten_refs (extract_list_references rp (snd (snd item))) @ flatten_refs hrefs)"
    by (simp add: entity_references_def h ebind_def)
  show ?case
    by (simp add: refs c ebind_def g' add_reference_edges_calls)
qed

lemma edge_calls_endpoints:
  "edge_calls rp em items = Inr calls \<Longrightarrow> set items \<subseteq> set em \<Longrightarrow>
     \<forall>c \<in> set calls. fst c \<in> fst ` set em \<and> fst (snd c) \<in> fst ` set em"
proof (induction items arbitrary: calls)
  case Nil
  then show ?case by simp
next
  case (Cons item items)
  from Cons.prems(1) obtain refs rest where
    "edge_calls rp em items = Inr rest"
    and calls: "calls = map (\<lambda>r. (fst item, snd r, fst r))
                (filter (\<lambda>r. snd r \<in> set (map fst em)) refs) @ rest"
    by (auto simp: ebind_Inr)
  with Cons.IH [of rest] Cons.prems(2)
  have "\<forall>c \<in> set rest. fst c \<in> fst ` set em \<and> fst (snd c) \<in> fst ` set em" by simp
  moreover have "fst item \<in> fst ` set em" using Cons.prems(2) by auto
  ultimately show ?case
  proof (intro ballI)
    fix c assume "c \<in> set calls"
    then consider "c \<in> set rest"
      | r where "c = (fst item, snd r, fst r)" "snd r \<in> set (map fst em)"
      unfolding calls by auto
    then show "fst c \<in> fst ` set em \<and> fst (snd c) \<in> fst ` set em"
    proof cases
      case 1
      with \<open>\<forall>c \<in> set rest. fst c \<in> fst ` set em \<and> fst (snd c) \<in> fst ` set em\<close>
      show ?thesis by blast
    next
      case 2
      with \<open>fst item \<in> fst ` set em\<close> show ?thesis by simp
    qed
  qed
qed

lemma g_edges_apply_call: "g_edges (apply_call g c) = edge_step (g_edges g) c"
  by (simp add: apply_call_def add_edge_def nx_add_edge_def edge_step_def Let_def)

lemma g_edges_calls: "g_edges (foldl apply_call g calls) = foldl edge_step (g_edges g) calls"
  by (induction calls arbitrary: g) (simp_all add: g_edges_apply_call)

lemma g_nodes_apply_call:
  "fst c \<in> set (node_ids g) \<Longrightarrow> fst (snd c) \<in> set (node_ids g) \<Longrightarrow>
     g_nodes (apply_call g c) = g_nodes g"
  by (simp add: apply_call_def add_edge_def nx_add_edge_def has_node_def Let_def)

lemma g_nodes_calls:
  "\<forall>c \<in> set calls. fst c \<in> set (node_ids g) \<and> fst (snd c) \<in> set (node_ids g) \<Longrightarrow>
     g_nodes (foldl apply_call g calls) = g_nodes g"
proof (induction calls arbitrary: g)
  case Nil
  then show ?case by simp
next
  case (Cons c calls)
  then have keep: "g_nodes (apply_call g c) = g_nodes g" by (simp add: g_nodes_apply_call)
  then have "node_ids (apply_call g c) = node_ids g" by (simp add: node_ids_def)
  with Cons have "g_nodes (foldl apply_call (apply_call g c) calls) = g_nodes (apply_call g c)"
    by simp
  with keep show ?case by simp
qed

lemma node_pass_inv_init: "node_pass_inv db (empty_graph, [])"
  by (simp add: node_pass_inv_def empty_graph_def)

lemma build_graph_structure:
  assumes "build_graph rp db md = Inr g"
  obtains st calls where "add_collections rp md db entity_types (empty_graph, []) = Inr st"
    and "node_pass_inv db st"
    and "build_edge_calls rp db md = Inr calls"
    and "g_nodes g = g_nodes (fst st)"
    and "g_edges g = foldl edge_step [] calls"
proof -
  from assms obtain st where st: "add_collections rp md db entity_types (empty_graph, []) = Inr st"
    and rel: "add_relationships_loop rp (snd st) (snd st) (fst st) = Inr g"
    by (auto simp: build_graph_def ebind_Inr add_relationships_def)
  have inv: "node_pass_inv db st"
    by (rule add_collections_inv [OF subset_refl node_pass_inv_init st])
  from relationships_as_calls [OF rel] obtain calls where
    calls: "edge_calls rp (snd st) (snd st) = Inr calls"
    and g: "g = foldl apply_call (fst st) calls" by blast
  have bc: "build_edge_calls rp db md = Inr calls"
    by (simp add: build_edge_calls_def st ebind_def calls)
  from edge_calls_endpoints [OF calls subset_refl] inv
  have "\<forall>c \<in> set calls. fst c \<in> set (node_ids (fst st)) \<and> fst (snd c) \<in> set (node_ids (fst st))"
    by (auto simp: node_pass_inv_def)
  from g_nodes_calls [OF this] g have nodes: "g_nodes g = g_nodes (fst st)" by simp
  from inv have "g_edges (fst st) = []" by (simp add: node_pass_inv_def)
  with g have edges: "g_edges g = foldl edge_step [] calls" by (simp add: g_edges_calls)
  from that [OF st inv bc nodes edges] show ?thesis .
qed

subsection \<open>One edge per pair\<close>

lemma same_pair_upair: "same_pair p q = (upair p = upair q)"
  by (cases p; cases q) (auto simp: same_pair_def upair_def doubleton_eq_iff)

lemma set_edge_keys:
  "map (\<lambda>e. upair (fst e)) (set_edge p d es) =
     (if upair p \<in> set (map (\<lambda>e. upair (fst e)) es) then map (\<lambda>e. upair (fst e)) es
      else map (\<lambda>e. upair (fst e)) es @ [upair p])"
  by (induction es) (auto simp: same_pair_upair)

lemma set_edge_member:
  "distinct (map (\<lambda>e. upair (fst e)) es) \<Longrightarrow> e \<in> set (set_edge p d es) \<Longrightarrow>
     (upair (fst e) = upair p \<and> snd e = d) \<or> (e \<in> set es \<and> upair (fst e) \<noteq> upair p)"
proof (induction es)
  case Nil
  then show ?case by auto
next
  case (Cons x es)
  show ?case
  proof (cases "same_pair p (fst x)")
    case True
    with Cons.prems have "e = (fst x, d) \<or> e \<in> set es" by auto
    then show ?thesis
    proof
      assume "e = (fst x, d)"
      with True show ?thesis by (simp add: same_pair_upair)
    next
      assume e: "e \<in> set es"
      with Cons.prems(1) have "upair (fst e) \<noteq> upair (fst x)" by auto
      with True e show ?thesis by (simp add: same_pair_upair)
    qed
  next
    case False
    with Cons.prems have "e = x \<or> e \<in> set (set_edge p d es)" by auto
    then show ?thesis
    proof
      assume "e = x"
      with False show ?thesis by (simp add: same_pair_upair)
    next
      assume "e \<in> set (set_edge p d es)"
      with Cons.IH Cons.prems(1) show ?thesis by auto
    qed
  qed
qed

lemma set_edge_fst: "e \<in> set (set_edge p d es) \<Longrightarrow> fst e = p \<or> fst e \<in> fst ` set es"
  by (induction es) (auto split: if_splits)

lemma last_label_snoc:
  "last_label (calls @ [c]) P =
     (if fst c \<noteq> fst (snd c) \<and> upair (fst c, fst (snd c)) = P then Some (snd (snd c))
      else last_label calls P)"
  by (simp add: last_label_def Let_def)

lemma edges_inv_step:
  assumes inv: "edges_inv calls es"
  shows "edges_inv (calls @ [c]) (edge_step es c)"
proof (cases "fst c \<noteq> fst (snd c)")
  case False
  then have same: "edge_step es c = es" by (simp add: edge_step_def)
  from False have lab: "last_label (calls @ [c]) P = last_label calls P" for P
    by (simp add: last_label_snoc)
  from inv False show ?thesis
    unfolding edges_inv_def same lab by auto
next
  case True
  let ?p = "(fst c, fst (snd c))" and ?d = "\<lparr>relationship = snd (snd c), weight = 1\<rparr>"
  have step: "edge_step es c = set_edge ?p ?d es" using True by (simp add: edge_step_def)
  from inv have di: "distinct (map (\<lambda>e. upair (fst e)) es)" by (simp add: edges_inv_def)
  have keys: "set (map (\<lambda>e. upair (fst e)) (set_edge ?p ?d es))
               = insert (upair ?p) (set (map (\<lambda>e. upair (fst e)) es))"
    by (auto simp: set_edge_keys)
  show ?thesis
    unfolding edges_inv_def step
  proof (intro conjI ballI impI)
    show "distinct (map (\<lambda>e. upair (fst e)) (set_edge ?p ?d es))"
      using di by (simp add: set_edge_keys)
  next
    fix e assume e: "e \<in> set (set_edge ?p ?d es)"
    from set_edge_fst [OF e] inv True show "fst (fst e) \<noteq> snd (fst e)"
      by (auto simp: edges_inv_def)
  next
    fix e assume e: "e \<in> set (set_edge ?p ?d es)"
    from set_edge_member [OF di e]
    show "last_label (calls @ [c]) (upair (fst e)) = Some (relationship (snd e))"
    proof
      assume "upair (fst e) = upair ?p \<and> snd e = ?d"
      with True show ?thesis by (simp add: last_label_snoc)
    next
      assume "e \<in> set es \<and> upair (fst e) \<noteq> upair ?p"
      with inv show ?thesis by (auto simp: last_label_snoc edges_inv_def)
    qed
  next
    fix c' assume c': "c' \<in> set (calls @ [c])" and nl: "fst c' \<noteq> fst (snd c')"
    from c' have "c' = c \<or> c' \<in> set calls" by auto
    then have "upair (fst c', fst (snd c')) \<in> set (map (\<lambda>e. upair (fst e)) (set_edge ?p ?d es))"
    proof
      assume "c' = c"
      then show ?thesis unfolding keys by simp
    next
      assume "c' \<in> set calls"
      with inv nl have "upair (fst c', fst (snd c')) \<in> (\<lambda>e. upair (fst e)) ` set es"
        by (auto simp: edges_inv_def)
      then show ?thesis unfolding keys by auto
    qed
    then show "upair (fst c', fst (snd c')) \<in> (\<lambda>e. upair (fst e)) ` set (set_edge ?p ?d es)"
      by simp
  qed
qed

lemma edges_inv_fold: "edges_inv calls (foldl edge_step [] calls)"
proof (induction calls rule: rev_induct)
  case Nil
  show ?case by (simp add: edges_inv_def)
next
  case (snoc c calls)
  from edges_inv_step [OF snoc] show ?case by simp
qed

text \<open>
  C6. In a graph that \<^verbatim>\<open>build_graph\<close> returns there is at most one edge per unordered pair
  of ids and no self-loop; the relationship of an edge is that of the last insertion
  between its two ends, whatever the earlier ones were; and every insertion between two
  distinct ids has its edge.
\<close>

theorem built_edges_last_relationship_wins:
  assumes "build_graph rp db md = Inr g"
  shows "\<exists>calls. build_edge_calls rp db md = Inr calls
           \<and> distinct (map (\<lambda>e. upair (fst e)) (g_edges g))
           \<and> (\<forall>e \<in> set (g_edges g). fst (fst e) \<noteq> snd (fst e))
           \<and> (\<forall>e \<in> set (g_edges g).
                 last_label calls (upair (fst e)) = Some (relationship (snd e)))
           \<and> (\<forall>c \<in> set calls. fst c \<noteq> fst (snd c) \<longrightarrow>
                 upair (fst c, fst (snd c)) \<in> (\<lambda>e. upair (fst e)) ` set (g_edges g))"
proof -
  from assms obtain st calls where bc: "build_edge_calls rp db md = Inr calls"
    and edges: "g_edges g = foldl edge_step [] calls"
    by (rule build_graph_structure)
  from edges_inv_fold [of calls] have "edges_inv calls (g_edges g)" by (simp add: edges)
  with bc show ?thesis unfolding edges_inv_def by blast
qed

subsection \<open>Type tags\<close>

lemma collect_none:
  "\<forall>nd \<in> set nds. t (fst nd) (snd nd) = Inr False \<Longrightarrow> collect t nds = Inr {}"
  by (induction nds) (simp_all add: ebind_def)

lemma plural_not_singular:
  "t \<in> set entity_types \<Longrightarrow> t \<noteq> ''vehicle'' \<and> t \<noteq> ''militaryOrganization'' \<and> t \<noteq> ''area''
     \<and> t \<notin> set canonical_types"
  by (auto simp: entity_types_def canonical_types_def)

lemma typed_test_false:
  assumes "from_collection db nd" and "required \<notin> set entity_types"
  shows "typed_attr_test required attr w (fst nd) (snd nd) = Inr False"
  using assms by (auto simp: from_collection_def typed_attr_test_def get_or_def)

lemma not_consistent:
  assumes "from_collection db nd"
  shows "\<not> consistent (snd nd)"
  using assms plural_not_singular
  by (auto simp: from_collection_def consistent_def list_ex_iff)

text \<open>
  C10. Every node of a graph that \<^verbatim>\<open>build_graph\<close> returns carries as its type the name of
  the collection its entity comes from, one of the eight plural names. So the filters
  \<^verbatim>\<open>vehicle_type\<close>, \<^verbatim>\<open>organization_type\<close> and \<^verbatim>\<open>area_type\<close>, which look at nodes of type
  \<^verbatim>\<open>vehicle\<close>, \<^verbatim>\<open>militaryOrganization\<close> and \<^verbatim>\<open>area\<close> only, match no node, and the
  consistency score of the graph is 0.
\<close>

theorem built_types_are_collection_names:
  assumes "build_graph rp db md = Inr g"
  shows "(\<forall>nd \<in> set (g_nodes g). from_collection db nd)
         \<and> filter_by_vehicle_type g (PStr s) = Inr {}
         \<and> filter_by_organization_type g (PStr s) = Inr {}
         \<and> filter_by_area_type g (PStr s) = Inr {}
         \<and> (\<forall>S. filter_by_vehicle_type g v = Inr S \<or> filter_by_organization_type g v = Inr S
                 \<or> filter_by_area_type g v = Inr S \<longrightarrow> S = {})
         \<and> calculate_consistency_score g = 0"
proof -
  from assms obtain st calls where inv: "node_pass_inv db st"
    and nodes: "g_nodes g = g_nodes (fst st)"
    by (rule build_graph_structure)
  then have typed: "\<forall>nd \<in> set (g_nodes g). from_collection db nd"
    by (simp add: node_pass_inv_def)
  have none: "collect (typed_attr_test required attr w) (g_nodes g) = Inr {}"
    if "required \<notin> set entity_types" for required attr w
    using typed typed_test_false [OF _ that] by (intro collect_none) blast
  have v: "''vehicle'' \<notin> set entity_types" and o: "''militaryOrganization'' \<notin> set entity_types"
    and a: "''area'' \<notin> set entity_types"
    by (simp_all add: entity_types_def)
  have strs: "filter_by_vehicle_type g (PStr s) = Inr {}"
    "filter_by_organization_type g (PStr s) = Inr {}"
    "filter_by_area_type g (PStr s) = Inr {}"
    by (simp_all add: filter_by_vehicle_type_def filter_by_organization_type_def
        filter_by_area_type_def ebind_def none v o a)
  have any: "S = {}" if "filter_by_vehicle_type g v = Inr S \<or> filter_by_organization_type g v = Inr S
                 \<or> filter_by_area_type g v = Inr S" for S
    using that
    by (cases "py_lower v")
       (auto simp: filter_by_vehicle_type_def filter_by_organization_type_def
        filter_by_area_type_def ebind_def none v o a)
  have "filter (\<lambda>nd. consistent (snd nd)) (g_nodes g) = []"
    using typed not_consistent by (auto simp: filter_empty_conv)
  then have zero: "calculate_consistency_score g = 0"
    by (simp add: calculate_consistency_score_def int_truediv_def binary64_zero)
  from typed strs any zero show ?thesis by blast
qed

section \<open>Scenarios\<close>

lemmas builder_eval =
  entity_types_def ebind_def add_node_def extract_primary_name_def entity_dict_def get_or_def
  empty_graph_def nx_add_node_def dict_update_def dict_set_def extract_searchable_attributes_def
  copy_field_def node_colors_def

lemma scenario_node_pass:
  "add_collections rp True scenario_db entity_types (empty_graph, [])
     = Inr (\<lparr>g_nodes = scenario_nodes, g_edges = []\<rparr>, scenario_entity_map)"
  by (simp add: scenario_db_def scenario_nodes_def v1_attributes_def scenario_entity_map_def
      builder_eval)

lemmas relation_eval =
  add_relationships_def extract_direct_references_def extract_list_references_def
  extract_hierarchical_references_def add_reference_edges_def flatten_refs_def add_edge_def
  nx_add_edge_def has_node_def node_ids_def same_pair_def ebind_def Let_def

lemma scenario_build: "build_graph rp scenario_db True = Inr scenario_graph"
  by (simp add: build_graph_def scenario_node_pass ebind_def)
     (simp add: scenario_entity_map_def scenario_graph_def scenario_nodes_def relation_eval)

lemma overwrite_node_pass:
  "add_collections rp False overwrite_db entity_types (empty_graph, [])
     = Inr (\<lparr>g_nodes = overwrite_nodes, g_edges = []\<rparr>, overwrite_entity_map)"
  by (simp add: overwrite_db_def overwrite_nodes_def overwrite_entity_map_def builder_eval)

lemma overwrite_build: "build_graph rp overwrite_db False = Inr overwrite_graph"
  by (simp add: build_graph_def overwrite_node_pass ebind_def)
     (simp add: overwrite_entity_map_def overwrite_graph_def overwrite_nodes_def relation_eval)

lemma overwrite_edge_calls: "build_edge_calls rp overwrite_db False = Inr overwrite_calls"
  by (simp add: build_edge_calls_def overwrite_node_pass ebind_def)
     (simp add: overwrite_entity_map_def overwrite_calls_def entity_references_def
        extract_direct_references_def extract_list_references_def
        extract_hierarchical_references_def flatten_refs_def ebind_def)

theorem built_edges_witness:
  "build_graph plain_repr overwrite_db False = Inr overwrite_graph
   \<and> build_edge_calls plain_repr overwrite_db False = Inr overwrite_calls
   \<and> g_edges overwrite_graph = [((''v1'', ''c1''), \<lparr>relationship = ''country'', weight = 1\<rparr>)]
   \<and> last_label overwrite_calls (upair (''v1'', ''c1'')) = Some ''country''"
proof -
  from built_edges_last_relationship_wins [OF overwrite_build [of plain_repr]]
  obtain calls where c: "build_edge_calls plain_repr overwrite_db False = Inr calls"
    and l: "\<forall>e \<in> set (g_edges overwrite_graph).
                 last_label calls (upair (fst e)) = Some (relationship (snd e))"
    by blast
  from c have "calls = overwrite_calls" by (simp add: overwrite_edge_calls)
  with l have "last_label overwrite_calls (upair (''v1'', ''c1'')) = Some ''country''"
    by (simp add: overwrite_graph_def)
  then show ?thesis
    by (simp add: overwrite_build overwrite_edge_calls) (simp add: overwrite_graph_def)
qed

theorem built_types_witness:
  "build_graph plain_repr scenario_db True = Inr scenario_graph
   \<and> filter_by_vehicle_type scenario_graph (PStr ''tank'') = Inr {}
   \<and> calculate_consistency_score scenario_graph = 0"
  using built_types_are_collection_names [OF scenario_build [of plain_repr], of "''tank''"]
  by (simp add: scenario_build)

lemma collect_pure:
  "collect (\<lambda>n d. Inr (P n d)) nds = Inr {fst nd | nd. nd \<in> set nds \<and> P (fst nd) (snd nd)}"
  by (induction nds) (auto simp: ebind_def)

lemma type_filter_nodes:
  "\<exists>r. apply_filters g [(''type'', t)] = Inr r \<and>
       set (node_ids r) =
         {fst nd | nd. nd \<in> set (g_nodes g) \<and> py_eq (get_or (snd nd) ''type'' PNone) t}"
proof -
  have "apply_filters g [(''type'', t)] =
      Inr (subgraph g (set (node_ids g) \<inter>
        {fst nd | nd. nd \<in> set (g_nodes g) \<and> py_eq (get_or (snd nd) ''type'' PNone) t}))"
    by (simp add: apply_filters_def lookup_type filter_by_type_def collect_pure ebind_def)
  moreover have "set (node_ids (subgraph g (set (node_ids g) \<inter> X))) = X"
    if "X \<subseteq> set (node_ids g)" for X
    using that by (simp add: node_ids_subgraph) blast
  moreover have "{fst nd | nd. nd \<in> set (g_nodes g) \<and> py_eq (get_or (snd nd) ''type'' PNone) t}
      \<subseteq> set (node_ids g)"
  proof
    fix x
    assume "x \<in> {fst nd | nd. nd \<in> set (g_nodes g) \<and> py_eq (get_or (snd nd) ''type'' PNone) t}"
    then obtain nd where "x = fst nd" and "nd \<in> set (g_nodes g)" by blast
    then show "x \<in> set (node_ids g)" by (simp add: node_ids_def)
  qed
  ultimately show ?thesis by simp
qed

lemma v1_not_uk: "belongs_to_country ''UK'' v1_attributes = Inr False"
  by (simp add: belongs_to_country_def v1_attributes_def get_lower_def get_or_def ebind_def
      str_lower_def lower_char_def)

text \<open>
  C1. The scenario builds into three nodes and two edges, \<^verbatim>\<open>v1\<close> to \<^verbatim>\<open>c1\<close> labelled
  \<^verbatim>\<open>owner\<close> and \<^verbatim>\<open>v1\<close> to \<^verbatim>\<open>vt1\<close> labelled \<^verbatim>\<open>vehicleType\<close>. The filter map with the one
  key \<^verbatim>\<open>type\<close> returns the nodes whose type attribute equals the argument. The owner
  attribute of \<^verbatim>\<open>v1\<close> is the id \<^verbatim>\<open>c1\<close>, which does not contain the token \<^verbatim>\<open>UK\<close>, so the
  membership test of the single-country analysis passes \<^verbatim>\<open>v1\<close> by and leaves the
  statistics as they are.
\<close>

theorem scenario_as_built:
  "build_graph rp scenario_db True = Inr scenario_graph
   \<and> node_ids scenario_graph = [''c1'', ''v1'', ''vt1'']
   \<and> map (\<lambda>e. (fst e, relationship (snd e))) (g_edges scenario_graph)
       = [((''v1'', ''c1''), ''owner''), ((''v1'', ''vt1''), ''vehicleType'')]
   \<and> (\<exists>r. apply_filters scenario_graph [(''type'', t)] = Inr r \<and>
           set (node_ids r) =
             {fst nd | nd. nd \<in> set (g_nodes scenario_graph) \<and>
                           py_eq (get_or (snd nd) ''type'' PNone) t})
   \<and> map_of (g_nodes scenario_graph) ''v1'' = Some v1_attributes
   \<and> map_of v1_attributes ''owner'' = Some (PStr ''c1'')
   \<and> belongs_to_country ''UK'' v1_attributes = Inr False
   \<and> analyze_nodes ''UK'' [(''v1'', v1_attributes)] st = Inr st"
proof -
  have ids: "node_ids scenario_graph = [''c1'', ''v1'', ''vt1'']"
    by (simp add: node_ids_def scenario_graph_def scenario_nodes_def)
  have edges: "map (\<lambda>e. (fst e, relationship (snd e))) (g_edges scenario_graph)
       = [((''v1'', ''c1''), ''owner''), ((''v1'', ''vt1''), ''vehicleType'')]"
    by (simp add: scenario_graph_def)
  have v1: "map_of (g_nodes scenario_graph) ''v1'' = Some v1_attributes"
    by (simp add: scenario_graph_def scenario_nodes_def)
  have owner: "map_of v1_attributes ''owner'' = Some (PStr ''c1'')"
    by (simp add: v1_attributes_def)
  have skip: "analyze_nodes ''UK'' [(''v1'', v1_attributes)] st = Inr st"
    by (simp add: v1_not_uk ebind_def)
  from scenario_build ids edges type_filter_nodes v1 owner v1_not_uk skip
  show ?thesis by blast
qed

text \<open>
  As the specification words it the scenario does not go through: no node of the built graph has
  the type \<^verbatim>\<open>vehicle\<close>, and the analysis for \<^verbatim>\<open>UK\<close> counts no asset.
\<close>

theorem scenario_counterexample:
  "build_graph plain_repr scenario_db True = Inr scenario_graph
   \<and> apply_filters scenario_graph [(''type'', PStr ''vehicle'')] = Inr (subgraph scenario_graph {})
   \<and> node_ids (subgraph scenario_graph {}) = []
   \<and> analyze_single_country scenario_graph ''UK'' = Inr empty_stats"
proof -
  have f: "filter_by_type scenario_graph (PStr ''vehicle'') = Inr {}"
    by (simp add: filter_by_type_def scenario_graph_def scenario_nodes_def v1_attributes_def
        get_or_def ebind_def)
  have a: "apply_filters scenario_graph [(''type'', PStr ''vehicle'')] = Inr (subgraph scenario_graph {})"
    by (simp add: apply_filters_def lookup_type f ebind_def)
  have n: "node_ids (subgraph scenario_graph {}) = []"
    by (simp add: node_ids_def subgraph_def)
  have c: "analyze_single_country scenario_graph ''UK'' = Inr empty_stats"
    by (simp add: analyze_single_country_def empty_stats_def scenario_graph_def
        scenario_nodes_def v1_attributes_def belongs_to_country_def get_lower_def get_or_def
        ebind_def str_lower_def lower_char_def)
  from scenario_build a n c show ?thesis by simp
qed

section \<open>Merging databases\<close>

lemma tag_source_id [simp]: "ent_id (tag_source s e) = ent_id e"
  by (simp add: tag_source_def)

lemma tag_source_tag:
  "map_of (ent_fields (tag_source src e)) ''_source_database'' = Some (PStr src)"
  by (simp add: tag_source_def dict_set_def update_conv')

lemma ids_of_Nil [simp]: "ids_of [] = {}"
  by (simp add: ids_of_def)

lemma ids_of_Cons:
  "ids_of (c # cs) =
     (case ent_id (snd c) of None \<Rightarrow> ids_of cs
      | Some i \<Rightarrow> if i \<noteq> [] then insert i (ids_of cs) else ids_of cs)"
  by (auto simp: ids_of_def split: option.splits)

lemma ids_of_append: "ids_of (xs @ ys) = ids_of xs \<union> ids_of ys"
  by (auto simp: ids_of_def)

lemma keep_first_append:
  "keep_first seen (xs @ ys) = keep_first seen xs @ keep_first (seen \<union> ids_of xs) ys"
proof (induction xs arbitrary: seen)
  case Nil
  show ?case by simp
next
  case (Cons c xs)
  show ?case
  proof (cases "ent_id (snd c)")
    case None
    then show ?thesis by (simp add: Cons.IH ids_of_Cons)
  next
    case (Some i)
    show ?thesis
    proof (cases "i \<noteq> [] \<and> i \<notin> seen")
      case True
      then show ?thesis using Some by (simp add: Cons.IH ids_of_Cons)
    next
      case False
      have a: "keep_first seen ((c # xs) @ ys) = keep_first seen (xs @ ys)"
        using False Some by auto
      have b: "keep_first seen (c # xs) = keep_first seen xs"
        using False Some by auto
      have c: "seen \<union> ids_of (c # xs) = seen \<union> ids_of xs"
        using False Some by (auto simp: ids_of_Cons)
      show ?thesis by (simp only: a b c Cons.IH)
    qed
  qed
qed

lemma map_of_map_entry_same:
  "map_of (AList.map_entry k f al) k = map_option f (map_of al k)"
  by (simp add: map_of_map_entry split: option.splits)

lemma map_of_map_entry_other:
  "k' \<noteq> k \<Longrightarrow> map_of (AList.map_entry k' f al) k = map_of al k"
  by (simp add: map_of_map_entry)

lemma combine_entities_same:
  assumes "map_of (cs_combined st) t = Some kept"
  shows "map_of (cs_combined (combine_entities src t es st)) t
           = Some (kept @ keep_first (cs_seen_ids st t) (map (Pair src) es))
         \<and> cs_seen_ids (combine_entities src t es st) t
           = cs_seen_ids st t \<union> ids_of (map (Pair src) es)"
  using assms
proof (induction es arbitrary: st kept)
  case Nil
  then show ?case by simp
next
  case (Cons e es)
  show ?case
  proof (cases "ent_id e")
    case None
    with Cons show ?thesis by (simp add: ids_of_Cons)
  next
    case (Some i)
    show ?thesis
    proof (cases "i \<noteq> [] \<and> i \<notin> cs_seen_ids st t")
      case True
      let ?st = "\<lparr>cs_combined =
                 AList.map_entry t (\<lambda>kept. kept @ [tag_source src e]) (cs_combined st),
               cs_seen_ids = (cs_seen_ids st)(t := insert i (cs_seen_ids st t)),
               cs_counts = count_up (cs_counts st) t\<rparr>"
      have k: "map_of (cs_combined ?st) t = Some (kept @ [tag_source src e])"
        using Cons.prems by (simp add: map_of_map_entry_same)
      from Cons.IH [OF k] True Some show ?thesis
        by (simp add: ids_of_Cons)
    next
      case False
      with Some have step: "combine_entities src t (e # es) st = combine_entities src t es st"
        by auto
      from False Some have "cs_seen_ids st t \<union> ids_of (map (Pair src) (e # es))
          = cs_seen_ids st t \<union> ids_of (map (Pair src) es)"
        by (auto simp: ids_of_Cons)
      with Cons.IH [OF Cons.prems] False Some show ?thesis
        by (simp only: step) auto
    qed
  qed
qed

lemma combine_entities_other:
  assumes "t' \<noteq> t"
  shows "map_of (cs_combined (combine_entities src t' es st)) t = map_of (cs_combined st) t
         \<and> cs_seen_ids (combine_entities src t' es st) t = cs_seen_ids st t"
proof (induction es arbitrary: st)
  case Nil
  show ?case by simp
next
  case (Cons e es)
  show ?case
    using assms by (cases "ent_id e") (simp_all add: Cons.IH map_of_map_entry_other)
qed

lemma combine_types_at:
  assumes "map_of (cs_combined st) t = Some kept" and "distinct ts"
  shows "map_of (cs_combined (combine_types src db ts st)) t
           = Some (kept @ (if t \<in> set ts
                           then keep_first (cs_seen_ids st t) (map (Pair src) (collection_of db t))
                           else []))
         \<and> cs_seen_ids (combine_types src db ts st) t
           = cs_seen_ids st t \<union> (if t \<in> set ts then ids_of (map (Pair src) (collection_of db t))
                                  else {})"
  using assms
proof (induction ts arbitrary: st kept)
  case Nil
  then show ?case by simp
next
  case (Cons u ts)
  from Cons.prems have d: "distinct ts" and u: "u \<notin> set ts" by simp_all
  show ?case
  proof (cases "map_of db u")
    case None
    then have c: "collection_of db u = []" by (simp add: collection_of_def)
    from Cons.IH [OF Cons.prems(1) d] None c u show ?thesis by auto
  next
    case (Some es)
    then have c: "collection_of db u = es" by (simp add: collection_of_def)
    let ?st = "combine_entities src u es st"
    show ?thesis
    proof (cases "u = t")
      case True
      from combine_entities_same [OF Cons.prems(1), of src es]
      have k: "map_of (cs_combined (combine_entities src t es st)) t
               = Some (kept @ keep_first (cs_seen_ids st t) (map (Pair src) es))"
        and s: "cs_seen_ids (combine_entities src t es st) t
               = cs_seen_ids st t \<union> ids_of (map (Pair src) es)"
        by simp_all
      from Cons.IH [OF k d] s u True Some c show ?thesis by simp
    next
      case False
      from combine_entities_other [OF False, of src es st]
      have k: "map_of (cs_combined ?st) t = Some kept" and s: "cs_seen_ids ?st t = cs_seen_ids st t"
        using Cons.prems(1) by simp_all
      from Cons.IH [OF k d] s False Some show ?thesis by auto
    qed
  qed
qed

lemma distinct_entity_types: "distinct entity_types"
  by (simp add: entity_types_def)

lemma candidates_Cons:
  "candidates (src # dbs) t = map (Pair (fst src)) (collection_of (snd src) t) @ candidates dbs t"
  by (simp add: candidates_def)

lemma combine_sources_at:
  assumes "map_of (cs_combined st) t = Some kept" and "t \<in> set entity_types"
  shows "map_of (cs_combined (combine_sources dbs st)) t
           = Some (kept @ keep_first (cs_seen_ids st t) (candidates dbs t))"
  using assms(1)
proof (induction dbs arbitrary: st kept)
  case Nil
  then show ?case by (simp add: candidates_def)
next
  case (Cons src dbs)
  let ?st = "combine_types (fst src) (snd src) entity_types st"
  let ?own = "map (Pair (fst src)) (collection_of (snd src) t)"
  from combine_types_at [OF Cons.prems distinct_entity_types, of "fst src" "snd src"] assms(2)
  have k: "map_of (cs_combined ?st) t = Some (kept @ keep_first (cs_seen_ids st t) ?own)"
    and s: "cs_seen_ids ?st t = cs_seen_ids st t \<union> ids_of ?own"
    by simp_all
  from Cons.IH [OF k] s show ?case
    by (simp add: candidates_Cons keep_first_append)
qed

lemma combine_databases_collection:
  assumes "t \<in> set entity_types"
  shows "map_of (collections (combine_databases dbs)) t = Some (keep_first {} (candidates dbs t))"
proof -
  let ?st = "\<lparr>cs_combined = map (\<lambda>t. (t, [])) entity_types, cs_seen_ids = (\<lambda>t. {}),
              cs_counts = []\<rparr>"
  have "map_of (map (\<lambda>t. (t, [])) entity_types) t = Some []"
    using assms by (simp add: map_of_map_restrict)
  then have "map_of (cs_combined ?st) t = Some []" by simp
  from combine_sources_at [OF this assms, of dbs] show ?thesis
    by (simp add: combine_databases_def Let_def)
qed

lemma keep_first_ids:
  "ent_id ` set (keep_first seen cs) = Some ` (ids_of cs - seen)"
proof (induction cs arbitrary: seen)
  case Nil
  show ?case by simp
next
  case (Cons c cs)
  show ?case
  proof (cases "ent_id (snd c)")
    case None
    then show ?thesis by (simp add: Cons.IH ids_of_Cons)
  next
    case (Some i)
    show ?thesis
    proof (cases "i \<noteq> [] \<and> i \<notin> seen")
      case True
      then show ?thesis using Some by (auto simp: Cons.IH ids_of_Cons)
    next
      case False
      then show ?thesis using Some by (auto simp: Cons.IH ids_of_Cons)
    qed
  qed
qed

lemma keep_first_distinct: "distinct (map ent_id (keep_first seen cs))"
proof (induction cs arbitrary: seen)
  case Nil
  show ?case by simp
next
  case (Cons c cs)
  show ?case
  proof (cases "ent_id (snd c)")
    case None
    then show ?thesis by (simp add: Cons.IH)
  next
    case (Some i)
    then show ?thesis
      using keep_first_ids [of "insert i seen" cs] by (auto simp: Cons.IH)
  qed
qed

lemma find_holds: "find P xs = Some x \<Longrightarrow> P x"
  by (induction xs) (auto split: if_splits)

lemma keep_first_origin:
  assumes "e' \<in> set (keep_first seen cs)"
  shows "\<exists>i src e. i \<noteq> [] \<and> find (\<lambda>c. ent_id (snd c) = Some i) cs = Some (src, e)
                    \<and> e' = tag_source src e"
  using assms
proof (induction cs arbitrary: seen)
  case Nil
  then show ?case by simp
next
  case (Cons c cs)
  show ?case
  proof (cases "ent_id (snd c)")
    case None
    with Cons.prems have "e' \<in> set (keep_first seen cs)" by simp
    from Cons.IH [OF this] None show ?thesis by auto
  next
    case (Some i)
    show ?thesis
    proof (cases "i \<noteq> [] \<and> i \<notin> seen")
      case True
      with Some Cons.prems consider "e' = tag_source (fst c) (snd c)"
        | "e' \<in> set (keep_first (insert i seen) cs)"
        by auto
      then show ?thesis
      proof cases
        case 1
        have "find (\<lambda>c. ent_id (snd c) = Some i) (c # cs) = Some (fst c, snd c)"
          using Some by simp
        with 1 True show ?thesis by blast
      next
        case 2
        from Cons.IH [OF 2] obtain j src e where j: "j \<noteq> []"
          and f: "find (\<lambda>c. ent_id (snd c) = Some j) cs = Some (src, e)"
          and e': "e' = tag_source src e"
          by blast
        from 2 have "ent_id e' \<in> Some ` (ids_of cs - insert i seen)"
          using keep_first_ids [of "insert i seen" cs] by blast
        moreover from f have "ent_id e = Some j"
          by (auto dest: find_holds)
        ultimately have "j \<noteq> i" using e' by auto
        with f Some have "find (\<lambda>c. ent_id (snd c) = Some j) (c # cs) = Some (src, e)"
          by simp
        with j e' show ?thesis by blast
      qed
    next
      case False
      with Some Cons.prems have in_rest: "e' \<in> set (keep_first seen cs)" by auto
      from Cons.IH [OF in_rest] obtain j src e where j: "j \<noteq> []"
        and f: "find (\<lambda>c. ent_id (snd c) = Some j) cs = Some (src, e)"
        and e': "e' = tag_source src e"
        by blast
      from in_rest have "ent_id e' \<in> Some ` (ids_of cs - seen)"
        using keep_first_ids [of seen cs] by blast
      moreover from f have "ent_id e = Some j"
        by (auto dest: find_holds)
      ultimately have "j \<notin> seen" using e' by auto
      with False j have "j \<noteq> i" by auto
      with f Some have "find (\<lambda>c. ent_id (snd c) = Some j) (c # cs) = Some (src, e)"
        by simp
      with j e' show ?thesis by blast
    qed
  qed
qed

text \<open>
  C5. For every list of named sources and every entity type, the merged collection holds
  the candidates in source order, each kept only if its id was not seen before for that
  type; so the ids of the merged collection are distinct and are all the ids of the
  candidates, every kept entity is the first candidate with its id, fields untouched, with
  the tag \<^verbatim>\<open>_source_database\<close> set to the name of the source it came from, and the
  metadata lists the sources in the order given.
\<close>

theorem combine_keeps_first:
  assumes "t \<in> set entity_types"
  shows "\<exists>kept. map_of (collections (combine_databases dbs)) t = Some kept
     \<and> kept = keep_first {} (candidates dbs t)
     \<and> distinct (map ent_id kept)
     \<and> ent_id ` set kept = Some ` ids_of (candidates dbs t)
     \<and> (\<forall>e' \<in> set kept. \<exists>i src e.
           i \<noteq> [] \<and> find (\<lambda>c. ent_id (snd c) = Some i) (candidates dbs t) = Some (src, e)
           \<and> e' = tag_source src e
           \<and> map_of (ent_fields e') ''_source_database'' = Some (PStr src))
     \<and> combined_from (combine_databases dbs) = map fst dbs"
proof -
  let ?kept = "keep_first {} (candidates dbs t)"
  have a: "map_of (collections (combine_databases dbs)) t = Some ?kept"
    by (rule combine_databases_collection [OF assms])
  have b: "distinct (map ent_id ?kept)"
    by (rule keep_first_distinct)
  have c: "ent_id ` set ?kept = Some ` ids_of (candidates dbs t)"
    using keep_first_ids [of "{}" "candidates dbs t"] by simp
  have d: "\<forall>e' \<in> set ?kept. \<exists>i src e.
           i \<noteq> [] \<and> find (\<lambda>c. ent_id (snd c) = Some i) (candidates dbs t) = Some (src, e)
           \<and> e' = tag_source src e
           \<and> map_of (ent_fields e') ''_source_database'' = Some (PStr src)"
  proof
    fix e'
    assume "e' \<in> set ?kept"
    from keep_first_origin [OF this] obtain i src e where "i \<noteq> []"
      and "find (\<lambda>c. ent_id (snd c) = Some i) (candidates dbs t) = Some (src, e)"
      and "e' = tag_source src e"
      by blast
    then show "\<exists>i src e.
           i \<noteq> [] \<and> find (\<lambda>c. ent_id (snd c) = Some i) (candidates dbs t) = Some (src, e)
           \<and> e' = tag_source src e
           \<and> map_of (ent_fields e') ''_source_database'' = Some (PStr src)"
      using tag_source_tag by blast
  qed
  have e: "combined_from (combine_databases dbs) = map fst dbs"
    by (simp add: combine_databases_def Let_def)
  from a b c d e show ?thesis by blast
qed

lemma two_sources_kept:
  "keep_first {} (candidates two_sources ''vehicles'') =
     [\<lparr>ent_id = Some ''v1'',
       ent_fields = [(''make'', PStr ''X''), (''_source_database'', PStr ''first'')]\<rparr>,
      \<lparr>ent_id = Some ''v2'', ent_fields = [(''_source_database'', PStr ''second'')]\<rparr>]
   \<and> keep_first {} (candidates two_sources ''areas'') =
     [\<lparr>ent_id = Some ''v1'', ent_fields = [(''_source_database'', PStr ''second'')]\<rparr>]"
  by (simp add: candidates_def two_sources_def collection_of_def tag_source_def dict_set_def)

theorem combine_keeps_first_witness:
  "''vehicles'' \<in> set entity_types \<and> ''areas'' \<in> set entity_types
   \<and> map_of (collections (combine_databases two_sources)) ''vehicles'' =
       Some [\<lparr>ent_id = Some ''v1'',
               ent_fields = [(''make'', PStr ''X''), (''_source_database'', PStr ''first'')]\<rparr>,
             \<lparr>ent_id = Some ''v2'', ent_fields = [(''_source_database'', PStr ''second'')]\<rparr>]
   \<and> map_of (collections (combine_databases two_sources)) ''areas'' =
       Some [\<lparr>ent_id = Some ''v1'', ent_fields = [(''_source_database'', PStr ''second'')]\<rparr>]
   \<and> combined_from (combine_databases two_sources) = [''first'', ''second'']"
proof -
  have v: "''vehicles'' \<in> set entity_types" and a: "''areas'' \<in> set entity_types"
    by (simp_all add: entity_types_def)
  from combine_keeps_first [OF v, of two_sources] two_sources_kept
  have "map_of (collections (combine_databases two_sources)) ''vehicles'' =
       Some [\<lparr>ent_id = Some ''v1'',
               ent_fields = [(''make'', PStr ''X''), (''_source_database'', PStr ''first'')]\<rparr>,
             \<lparr>ent_id = Some ''v2'', ent_fields = [(''_source_database'', PStr ''second'')]\<rparr>]"
    by simp
  moreover from combine_keeps_first [OF a, of two_sources] two_sources_kept
  have "map_of (collections (combine_databases two_sources)) ''areas'' =
       Some [\<lparr>ent_id = Some ''v1'', ent_fields = [(''_source_database'', PStr ''second'')]\<rparr>]"
    by simp
  moreover from combine_keeps_first [OF v, of two_sources]
  have "combined_from (combine_databases two_sources) = [''first'', ''second'']"
    by (simp add: two_sources_def)
  ultimately show ?thesis using v a by simp
qed
end
